(* ===== verification/Prelude.thy ===== *)
theory Prelude
  imports Complex_Main "HOL-Library.Word" "HOL-Library.AList" "HOL-Library.Sublist" "HOL-Library.Multiset"
begin

text \<open>
  What every component of the stackd model shares: the Go values the program computes with
  (byte strings, instants, 64-bit durations, maps), the collections of simplification rules,
  and the contracts several components meet, stated once as locales:
  \<^item> \<open>keyed_store\<close>: a get/put interface (the state store, the backoff table, the schedule, the
    rate limiter, the settings table);
  \<^item> \<open>bounded_channel\<close>: a buffered Go channel with a non-blocking send (the activity feed, the
    manual sync trigger);
  \<^item> \<open>sanitizer\<close>: a filter that makes strings clean and leaves clean strings alone
    (credential redaction, label escaping, ANSI stripping);
  \<^item> \<open>codec\<close>: an encoder with a partial decoder (base64, nullable columns);
  \<^item> \<open>transition_system\<close>: a step relation with an inductive invariant.
\<close>

section \<open>Collections\<close>

named_theorems go_string \<open>characteristic equations of the string functions\<close>
named_theorems store_simps \<open>reads after writes of the program's stores\<close>
named_theorems frame_simps \<open>parts of the daemon an operation leaves alone\<close>

section \<open>Go values\<close>

text \<open>
  A Go string is a sequence of bytes, and so is HOL's \<^typ>\<open>string\<close>. A \<^verbatim>\<open>time.Time\<close> is the
  number of nanoseconds since the zero \<^verbatim>\<open>time.Time{}\<close>; a \<^verbatim>\<open>time.Duration\<close> is a signed 64-bit
  integer of nanoseconds, kept at its width because products of durations can overflow.
  An \<^verbatim>\<open>int\<close> of the program is 64 bits wide on the supported platforms.
\<close>

type_synonym gotime = int
type_synonym duration = "64 word"
type_synonym goint = "64 word"

abbreviation (input) zero_time :: gotime where
  "zero_time \<equiv> 0"

definition IsZero :: "gotime \<Rightarrow> bool" where
  "IsZero t \<longleftrightarrow> t = zero_time"

definition Second :: duration where
  "Second = 1000000000"

definition time_Add :: "gotime \<Rightarrow> duration \<Rightarrow> gotime" where
  "time_Add t d = t + sint d"

text \<open>A signed comparison of durations and integers.\<close>

definition sgt :: "64 word \<Rightarrow> 64 word \<Rightarrow> bool" where
  "sgt a b \<longleftrightarrow> sint a > sint b"

lemma IsZero_zero [simp]: "IsZero zero_time"
  by (simp add: IsZero_def)

lemma sint_64_bounds: "- (2 ^ 63) \<le> sint (w :: 64 word) \<and> sint w < 2 ^ 63"
  using sint_greater_eq [of w] sint_less [of w] by simp

text \<open>A signed product that fits does not wrap.\<close>

lemma sint_mult_fits:
  fixes a b :: "64 word"
  assumes "- (2 ^ 63) \<le> sint a * sint b" "sint a * sint b < 2 ^ 63"
  shows "sint (a * b) = sint a * sint b"
proof -
  have "sint (a * b) = signed_take_bit 63 (sint a * sint b)"
    by (simp add: sint_word_ariths(3))
  also have "\<dots> = sint a * sint b"
    using assms by (intro signed_take_bit_int_eq_self) simp_all
  finally show ?thesis .
qed

lemma sint_of_nat_small: "n < 2 ^ 63 \<Longrightarrow> sint (of_nat n :: 64 word) = int n"
  by (simp add: signed_of_nat signed_take_bit_int_eq_self)

section \<open>Go maps\<close>

text \<open>
  A Go map is an association list with one entry per key. The order of a \<^verbatim>\<open>range\<close> over a map
  is unspecified in Go: operations that iterate take the order as an argument.
\<close>

type_synonym ('k, 'v) gomap = "('k \<times> 'v) list"

abbreviation mget :: "('k, 'v) gomap \<Rightarrow> 'k \<Rightarrow> 'v option" where
  "mget m k \<equiv> map_of m k"

abbreviation mput :: "'k \<Rightarrow> 'v \<Rightarrow> ('k, 'v) gomap \<Rightarrow> ('k, 'v) gomap" where
  "mput k v m \<equiv> AList.update k v m"

abbreviation mdel :: "'k \<Rightarrow> ('k, 'v) gomap \<Rightarrow> ('k, 'v) gomap" where
  "mdel k m \<equiv> AList.delete k m"

abbreviation wf_map :: "('k, 'v) gomap \<Rightarrow> bool" where
  "wf_map m \<equiv> distinct (map fst m)"

text \<open>The value of a missing key is the zero value of the element type.\<close>

definition mget0 :: "'v \<Rightarrow> ('k, 'v) gomap \<Rightarrow> 'k \<Rightarrow> 'v" where
  "mget0 z m k = (case mget m k of None \<Rightarrow> z | Some v \<Rightarrow> v)"

lemma mget_mput [simp, store_simps]: "mget (mput k v m) k' = (if k = k' then Some v else mget m k')"
  by (simp add: update_conv')

lemma mget_mdel [simp, store_simps]: "mget (mdel k m) k' = (if k = k' then None else mget m k')"
  by (simp add: delete_conv')

lemma wf_mput [simp]: "wf_map m \<Longrightarrow> wf_map (mput k v m)"
  by (rule distinct_update)

lemma wf_mdel [simp]: "wf_map m \<Longrightarrow> wf_map (mdel k m)"
  by (rule distinct_delete)

lemma mget0_mput [simp, store_simps]:
  "mget0 z (mput k v m) k' = (if k = k' then v else mget0 z m k')"
  by (simp add: mget0_def)

lemma set_mputD: "(a, b) \<in> set (mput k v m) \<Longrightarrow> (a, b) = (k, v) \<or> (a, b) \<in> set m"
  by (induction m) (auto split: if_splits)

lemma mget_in_set: "wf_map m \<Longrightarrow> mget m k = Some v \<longleftrightarrow> (k, v) \<in> set m"
  by (rule map_of_eq_Some_iff)

section \<open>Contracts\<close>

subsection \<open>Keyed stores\<close>

locale keyed_store =
  fixes get :: "'s \<Rightarrow> 'k \<Rightarrow> 'v option"
    and put :: "'k \<Rightarrow> 'v \<Rightarrow> 's \<Rightarrow> 's"
  assumes get_put_same: "get (put k v s) k = Some v"
    and get_put_other: "k \<noteq> k' \<Longrightarrow> get (put k v s) k' = get s k'"
begin

definition puts :: "('k \<times> 'v) list \<Rightarrow> 's \<Rightarrow> 's" where
  "puts kvs s = fold (\<lambda>(k, v). put k v) kvs s"

lemma get_put: "get (put k v s) k' = (if k = k' then Some v else get s k')"
  by (auto simp: get_put_same get_put_other)

text \<open>Writes to other keys do not show: a sequence of writes is seen through its last write.\<close>

lemma get_puts: "get (puts kvs s) k = (case map_of (rev kvs) k of None \<Rightarrow> get s k | Some v \<Rightarrow> Some v)"
proof (induction kvs arbitrary: s)
  case Nil
  show ?case by (simp add: puts_def)
next
  case (Cons kv kvs)
  obtain k0 v0 where kv: "kv = (k0, v0)" by fastforce
  have "get (puts (kv # kvs) s) k = get (puts kvs (put k0 v0 s)) k"
    by (simp add: puts_def kv)
  also have "\<dots> = (case map_of (rev kvs) k of None \<Rightarrow> get (put k0 v0 s) k | Some v \<Rightarrow> Some v)"
    by (rule Cons.IH)
  finally show ?case
    by (auto simp: kv get_put map_add_def split: option.splits)
qed

lemma get_puts_frame: "k \<notin> fst ` set kvs \<Longrightarrow> get (puts kvs s) k = get s k"
  by (simp add: get_puts map_of_eq_None_iff[THEN iffD2])

end

subsection \<open>Buffered channels\<close>

text \<open>
  A buffered channel seen as a list: a non-blocking send appends while there is room and drops
  the value otherwise; a receive takes the head.
\<close>

locale bounded_channel =
  fixes cap :: nat
    and buf :: "'c \<Rightarrow> 'a list"
    and send :: "'a \<Rightarrow> 'c \<Rightarrow> 'c"
    and sent :: "'a \<Rightarrow> 'c \<Rightarrow> bool"
    and recv :: "'c \<Rightarrow> ('a \<times> 'c) option"
  assumes send_room: "length (buf c) < cap \<Longrightarrow> buf (send x c) = buf c @ [x] \<and> sent x c"
    and send_full: "length (buf c) \<ge> cap \<Longrightarrow> send x c = c \<and> \<not> sent x c"
    and recv_empty: "buf c = [] \<Longrightarrow> recv c = None"
    and recv_head: "buf c = x # xs \<Longrightarrow> \<exists>c'. recv c = Some (x, c') \<and> buf c' = xs"
begin

lemma buf_send: "buf (send x c) = (if length (buf c) < cap then buf c @ [x] else buf c)"
  using send_room send_full by (cases "length (buf c) < cap") auto

lemma send_bound: "length (buf c) \<le> cap \<Longrightarrow> length (buf (send x c)) \<le> cap"
  by (simp add: buf_send)

text \<open>
  A burst of sends keeps what was queued, in order, and then the earliest of the new values
  that fit: nothing is reordered or duplicated.
\<close>

lemma buf_sends:
  assumes "length (buf c) \<le> cap"
  shows "buf (fold send xs c) = buf c @ take (cap - length (buf c)) xs"
  using assms
proof (induction xs arbitrary: c)
  case Nil
  then show ?case by simp
next
  case (Cons x xs)
  have "buf (fold send xs (send x c)) = buf (send x c) @ take (cap - length (buf (send x c))) xs"
    using Cons.IH send_bound Cons.prems by blast
  moreover have "cap - length (buf c) = Suc (cap - Suc (length (buf c)))"
    if "length (buf c) < cap" using that by simp
  ultimately show ?case
    using Cons.prems by (cases "length (buf c) < cap") (simp_all add: buf_send)
qed

end

subsection \<open>Sanitizers\<close>

locale sanitizer =
  fixes clean :: "'a \<Rightarrow> bool"
    and sanitize :: "'a \<Rightarrow> 'a"
  assumes sanitize_clean: "clean (sanitize s)"
    and sanitize_id: "clean s \<Longrightarrow> sanitize s = s"
begin

lemma sanitize_idem: "sanitize (sanitize s) = sanitize s"
  by (rule sanitize_id [OF sanitize_clean])

lemma clean_iff_fixpoint: "clean s \<longleftrightarrow> sanitize s = s"
  using sanitize_clean [of s] sanitize_id [of s] by auto

end

subsection \<open>Codecs\<close>

locale codec =
  fixes valid :: "'a \<Rightarrow> bool"
    and enc :: "'a \<Rightarrow> 'b"
    and dec :: "'b \<Rightarrow> 'a option"
  assumes dec_enc: "valid x \<Longrightarrow> dec (enc x) = Some x"
begin

lemma enc_inj: "valid x \<Longrightarrow> valid y \<Longrightarrow> enc x = enc y \<Longrightarrow> x = y"
  using dec_enc by (metis option.inject)

lemma map_dec_enc: "(\<And>x. x \<in> set xs \<Longrightarrow> valid x) \<Longrightarrow> map (dec \<circ> enc) xs = map Some xs"
  by (induction xs) (simp_all add: dec_enc)

end

subsection \<open>Lists of holdings\<close>

text \<open>What all elements hold together, after one of them changes.\<close>

lemma concat_update:
  "n < length xs \<Longrightarrow> mset (concat (map f (xs[n := y]))) + mset (f (xs ! n)) = mset (concat (map f xs)) + mset (f y)"
proof (induction xs arbitrary: n)
  case (Cons a xs)
  then show ?case by (cases n) (auto simp: ac_simps)
qed simp

subsection \<open>Transition systems\<close>

inductive reach :: "('s \<Rightarrow> bool) \<Rightarrow> ('s \<Rightarrow> 's \<Rightarrow> bool) \<Rightarrow> 's \<Rightarrow> bool"
  for I :: "'s \<Rightarrow> bool" and R :: "'s \<Rightarrow> 's \<Rightarrow> bool" where
  reach_init: "I s \<Longrightarrow> reach I R s"
| reach_step: "reach I R s \<Longrightarrow> R s t \<Longrightarrow> reach I R t"

lemma reach_run: "reach I R s \<Longrightarrow> R\<^sup>*\<^sup>* s t \<Longrightarrow> reach I R t"
  by (rotate_tac, induction rule: rtranclp_induct) (auto intro: reach_step)

locale transition_system =
  fixes initial :: "'s \<Rightarrow> bool"
    and step :: "'s \<Rightarrow> 's \<Rightarrow> bool"
    and invariant :: "'s \<Rightarrow> bool"
  assumes initial_invariant: "initial s \<Longrightarrow> invariant s"
    and step_invariant: "invariant s \<Longrightarrow> step s t \<Longrightarrow> invariant t"
begin

lemma reach_invariant: "reach initial step s \<Longrightarrow> invariant s"
  by (induction rule: reach.induct) (auto intro: initial_invariant step_invariant)

lemma run_invariant: "step\<^sup>*\<^sup>* s t \<Longrightarrow> invariant s \<Longrightarrow> invariant t"
  by (induction rule: rtranclp_induct) (auto intro: step_invariant)

end

text \<open>
  A coarse machine whose every step a finer one can do in several: the finer machine reaches a
  related state for every state the coarse one reaches, so the coarse one inherits its invariant.
\<close>

locale simulation = coarse: transition_system initial step invariant
    + fine: transition_system initial' step' invariant'
  for initial :: "'s \<Rightarrow> bool" and step invariant and initial' :: "'t \<Rightarrow> bool" and step' invariant' +
  fixes related :: "'s \<Rightarrow> 't \<Rightarrow> bool"
  assumes initial_related: "initial s \<Longrightarrow> \<exists>x. initial' x \<and> related s x"
    and step_related: "invariant s \<Longrightarrow> related s x \<Longrightarrow> step s t \<Longrightarrow> \<exists>y. step'\<^sup>*\<^sup>* x y \<and> related t y"
begin

lemma reach_related: "reach initial step s \<Longrightarrow> \<exists>x. reach initial' step' x \<and> related s x"
proof (induction rule: reach.induct)
  case (reach_init s)
  then show ?case using initial_related by (blast intro: reach.reach_init)
next
  case (reach_step s t)
  then obtain x where x: "reach initial' step' x" "related s x" by blast
  obtain y where y: "step'\<^sup>*\<^sup>* x y" "related t y"
    using step_related [OF coarse.reach_invariant [OF reach_step.hyps(1)] x(2) reach_step.hyps(2)] by blast
  show ?case by (rule exI [of _ y]) (simp add: y reach_run [OF x(1) y(1)])
qed

lemma fine_invariant: "reach initial step s \<Longrightarrow> \<exists>x. related s x \<and> invariant' x"
  using reach_related fine.reach_invariant by blast

end

end
