(* ===== verification/GoStrings.thy ===== *)
theory GoStrings
  imports Prelude
begin

text \<open>
  The parts of Go's packages \<^verbatim>\<open>strings\<close>, \<^verbatim>\<open>strconv\<close> and \<^verbatim>\<open>path/filepath\<close> the program calls, on
  byte strings. Case conversion follows the packages' own split: a string of ASCII bytes is
  converted byte by byte, any other string through the Unicode tables, which are an argument
  (\<open>unicode_tables\<close>). \<^verbatim>\<open>TrimSpace\<close> is exact on UTF-8: white space is the list of encodings of
  the white-space runes.
\<close>

section \<open>Bytes\<close>

definition byte :: "char \<Rightarrow> nat" where
  "byte c = of_char c"

definition is_ascii :: "char \<Rightarrow> bool" where
  "is_ascii c \<longleftrightarrow> byte c < 128"

definition is_upper :: "char \<Rightarrow> bool" where
  "is_upper c \<longleftrightarrow> 65 \<le> byte c \<and> byte c \<le> 90"

definition is_lower :: "char \<Rightarrow> bool" where
  "is_lower c \<longleftrightarrow> 97 \<le> byte c \<and> byte c \<le> 122"

definition is_digit :: "char \<Rightarrow> bool" where
  "is_digit c \<longleftrightarrow> 48 \<le> byte c \<and> byte c \<le> 57"

definition is_alnum :: "char \<Rightarrow> bool" where
  "is_alnum c \<longleftrightarrow> is_upper c \<or> is_lower c \<or> is_digit c"

text \<open>The white-space class \<^verbatim>\<open>\s\<close> of package \<^verbatim>\<open>regexp\<close>: tab, newline, form feed, carriage return, space.\<close>

definition re_space :: "char \<Rightarrow> bool" where
  "re_space c \<longleftrightarrow> byte c \<in> {9, 10, 12, 13, 32}"

abbreviation newline :: char where
  "newline \<equiv> CHR 0x0A"

lemma byte_less_256 [simp]: "byte c < 256"
  by (simp add: byte_def)

lemma byte_inject [simp]: "byte c = byte d \<longleftrightarrow> c = d"
  by (simp add: byte_def)

lemmas byte_class_defs = is_ascii_def is_upper_def is_lower_def is_digit_def is_alnum_def re_space_def

section \<open>Package strings\<close>

definition HasPrefix :: "string \<Rightarrow> string \<Rightarrow> bool" where
  "HasPrefix s p \<longleftrightarrow> prefix p s"

definition HasSuffix :: "string \<Rightarrow> string \<Rightarrow> bool" where
  "HasSuffix s p \<longleftrightarrow> suffix p s"

definition Contains :: "string \<Rightarrow> string \<Rightarrow> bool" where
  "Contains s sub \<longleftrightarrow> sublist sub s"

definition TrimPrefix :: "string \<Rightarrow> string \<Rightarrow> string" where
  "TrimPrefix s p = (if HasPrefix s p then drop (length p) s else s)"

text \<open>\<^verbatim>\<open>strings.Index\<close>, with \<open>None\<close> for \<^verbatim>\<open>-1\<close>.\<close>

fun Index :: "string \<Rightarrow> string \<Rightarrow> nat option" where
  "Index s sub =
     (if HasPrefix s sub then Some 0
      else case s of [] \<Rightarrow> None | _ # s' \<Rightarrow> map_option Suc (Index s' sub))"

declare Index.simps [simp del]

text \<open>\<^verbatim>\<open>strings.Cut\<close>: the parts around the first separator, or the whole string.\<close>

definition Cut :: "string \<Rightarrow> string \<Rightarrow> string \<times> string \<times> bool" where
  "Cut s sep =
     (case Index s sep of
        Some i \<Rightarrow> (take i s, drop (i + length sep) s, True)
      | None \<Rightarrow> (s, [], False))"

text \<open>\<^verbatim>\<open>strings.Split\<close> at a one-byte separator (the only ones the program uses).\<close>

fun Split :: "char \<Rightarrow> string \<Rightarrow> string list" where
  "Split c [] = [[]]"
| "Split c (x # xs) =
     (if x = c then [] # Split c xs
      else case Split c xs of [] \<Rightarrow> [[x]] | y # ys \<Rightarrow> (x # y) # ys)"

fun Join :: "string list \<Rightarrow> string \<Rightarrow> string" where
  "Join [] sep = []"
| "Join [s] sep = s"
| "Join (s # ss) sep = s @ sep @ Join ss sep"

definition TrimRight :: "string \<Rightarrow> char \<Rightarrow> string" where
  "TrimRight s c = rev (dropWhile (\<lambda>x. x = c) (rev s))"

lemma HasPrefix_append: "HasPrefix s p \<longleftrightarrow> (\<exists>r. s = p @ r)"
  by (auto simp: HasPrefix_def prefix_def)

lemma TrimPrefix_append [simp]: "TrimPrefix (p @ s) p = s"
  by (simp add: TrimPrefix_def HasPrefix_def)

lemma TrimPrefix_other: "\<not> HasPrefix s p \<Longrightarrow> TrimPrefix s p = s"
  by (simp add: TrimPrefix_def)

lemma Index_Some:
  "Index s sub = Some i \<Longrightarrow> \<exists>r. s = take i s @ sub @ r"
proof (induction s arbitrary: i)
  case Nil
  then show ?case by (simp add: Index.simps [of "[]"] HasPrefix_def split: if_splits)
next
  case (Cons x s)
  show ?case
  proof (cases "HasPrefix (x # s) sub")
    case True
    with Cons.prems have "i = 0" by (simp add: Index.simps [of "x # s"])
    with True show ?thesis by (auto simp: HasPrefix_append)
  next
    case False
    with Cons.prems obtain j where "i = Suc j" "Index s sub = Some j"
      by (auto simp: Index.simps [of "x # s"])
    with Cons.IH show ?thesis by fastforce
  qed
qed

lemma Index_None: "Index s sub = None \<longleftrightarrow> \<not> Contains s sub"
proof (induction s)
  case Nil
  show ?case by (cases sub) (simp_all add: Index.simps [of "[]"] HasPrefix_def Contains_def)
next
  case (Cons x s)
  then show ?case
    by (cases sub) (auto simp: Index.simps [of "x # s"] HasPrefix_def Contains_def sublist_Cons_right)
qed

text \<open>The byte form of \<^const>\<open>Index\<close>: everything before the first occurrence is free of it.\<close>

lemma Index_byte_Some:
  "Index s [c] = Some i \<longleftrightarrow> (\<exists>r. s = take i s @ c # r \<and> c \<notin> set (take i s) \<and> i < length s)"
proof (induction s arbitrary: i)
  case Nil
  show ?case by (simp add: Index.simps [of "[]"] HasPrefix_def)
next
  case (Cons x s)
  show ?case
  proof (cases "x = c")
    case True
    then have "Index (x # s) [c] = Some 0" by (simp add: Index.simps [of "c # s"] HasPrefix_def)
    with True show ?thesis by (cases i) auto
  next
    case False
    then have "Index (x # s) [c] = map_option Suc (Index s [c])"
      by (simp add: Index.simps [of "x # s"] HasPrefix_def)
    with False Cons.IH show ?thesis by (cases i) auto
  qed
qed

lemma Index_byte_append: "c \<notin> set a \<Longrightarrow> Index (a @ c # r) [c] = Some (length a)"
  by (simp add: Index_byte_Some)

lemma Split_nonempty [simp]: "Split c s \<noteq> []"
  by (cases s) (auto split: list.splits)

lemma Split_no_sep: "t \<in> set (Split c s) \<Longrightarrow> c \<notin> set t"
proof (induction s arbitrary: t)
  case Nil
  then show ?case by simp
next
  case (Cons x xs)
  show ?case
  proof (cases "x = c")
    case True
    with Cons show ?thesis by auto
  next
    case False
    obtain y ys where y: "Split c xs = y # ys" by (cases "Split c xs") simp_all
    with Cons.IH have "c \<notin> set y" "\<And>u. u \<in> set ys \<Longrightarrow> c \<notin> set u" by auto
    with Cons.prems False y show ?thesis by auto
  qed
qed

lemma Join_Cons: "ss \<noteq> [] \<Longrightarrow> Join (s # ss) sep = s @ sep @ Join ss sep"
  by (cases ss) simp_all

lemma Join_Split: "Join (Split c s) [c] = s"
proof (induction s)
  case Nil
  show ?case by simp
next
  case (Cons x xs)
  obtain y ys where y: "Split c xs = y # ys" by (cases "Split c xs") simp_all
  show ?case
  proof (cases "x = c")
    case True
    with Cons y show ?thesis by (simp add: Join_Cons)
  next
    case False
    with Cons y show ?thesis by (cases ys) simp_all
  qed
qed

lemma Split_free: "c \<notin> set s \<Longrightarrow> Split c s = [s]"
  by (induction s) auto

lemma Split_append_sep: "c \<notin> set a \<Longrightarrow> Split c (a @ c # s) = a # Split c s"
  by (induction a) auto

section \<open>White space\<close>

text \<open>The UTF-8 encodings of the runes \<^verbatim>\<open>unicode.IsSpace\<close> accepts.\<close>

definition space_runes :: "string list" where
  "space_runes =
     [[CHR 0x09], [CHR 0x0A], [CHR 0x0B], [CHR 0x0C], [CHR 0x0D], [CHR 0x20],
      [CHR 0xC2, CHR 0x85], [CHR 0xC2, CHR 0xA0], [CHR 0xE1, CHR 0x9A, CHR 0x80],
      [CHR 0xE2, CHR 0x80, CHR 0x80], [CHR 0xE2, CHR 0x80, CHR 0x81], [CHR 0xE2, CHR 0x80, CHR 0x82],
      [CHR 0xE2, CHR 0x80, CHR 0x83], [CHR 0xE2, CHR 0x80, CHR 0x84], [CHR 0xE2, CHR 0x80, CHR 0x85],
      [CHR 0xE2, CHR 0x80, CHR 0x86], [CHR 0xE2, CHR 0x80, CHR 0x87], [CHR 0xE2, CHR 0x80, CHR 0x88],
      [CHR 0xE2, CHR 0x80, CHR 0x89], [CHR 0xE2, CHR 0x80, CHR 0x8A], [CHR 0xE2, CHR 0x80, CHR 0xA8],
      [CHR 0xE2, CHR 0x80, CHR 0xA9], [CHR 0xE2, CHR 0x80, CHR 0xAF], [CHR 0xE2, CHR 0x81, CHR 0x9F],
      [CHR 0xE3, CHR 0x80, CHR 0x80]]"

function strip_runes :: "string list \<Rightarrow> string \<Rightarrow> string" where
  "strip_runes rs s =
     (case find (\<lambda>r. r \<noteq> [] \<and> prefix r s) rs of
        None \<Rightarrow> s
      | Some r \<Rightarrow> strip_runes rs (drop (length r) s))"
  by pat_completeness auto
termination
proof (relation "measure (\<lambda>(rs, s). length s)")
  fix rs :: "string list" and s r
  assume "find (\<lambda>r. r \<noteq> [] \<and> prefix r s) rs = Some r"
  then have "r \<noteq> []" "prefix r s" by (auto simp: find_Some_iff)
  then have "0 < length r" "length r \<le> length s" by (auto dest: prefix_length_le)
  then have "length s - length r < length s" by linarith
  then show "((rs, drop (length r) s), rs, s) \<in> measure (\<lambda>(rs, s). length s)" by simp
qed simp

declare strip_runes.simps [simp del]

definition TrimSpace :: "string \<Rightarrow> string" where
  "TrimSpace s = rev (strip_runes (map rev space_runes) (rev (strip_runes space_runes s)))"

text \<open>A string no rune of \<open>rs\<close> begins.\<close>

definition unstripped :: "string list \<Rightarrow> string \<Rightarrow> bool" where
  "unstripped rs s \<longleftrightarrow> (\<forall>r \<in> set rs. r = [] \<or> \<not> prefix r s)"

lemma strip_runes_clean: "unstripped rs (strip_runes rs s)"
proof (induction rs s rule: strip_runes.induct)
  case (1 rs s)
  show ?case
  proof (cases "find (\<lambda>r. r \<noteq> [] \<and> prefix r s) rs")
    case None
    then have "strip_runes rs s = s" by (simp add: strip_runes.simps [of rs s])
    with None show ?thesis by (auto simp: unstripped_def find_None_iff)
  next
    case (Some r)
    with "1.IH" show ?thesis by (simp add: strip_runes.simps [of rs s])
  qed
qed

lemma strip_runes_id: "unstripped rs s \<Longrightarrow> strip_runes rs s = s"
proof -
  assume "unstripped rs s"
  then have "find (\<lambda>r. r \<noteq> [] \<and> prefix r s) rs = None"
    by (auto simp: find_None_iff unstripped_def)
  then show ?thesis by (simp add: strip_runes.simps [of rs s])
qed

lemma strip_runes_suffix: "suffix (strip_runes rs s) s"
proof (induction rs s rule: strip_runes.induct)
  case (1 rs s)
  show ?case
  proof (cases "find (\<lambda>r. r \<noteq> [] \<and> prefix r s) rs")
    case None
    then show ?thesis by (simp add: strip_runes.simps [of rs s])
  next
    case (Some r)
    with "1.IH" have "suffix (strip_runes rs s) (drop (length r) s)"
      by (simp add: strip_runes.simps [of rs s])
    then show ?thesis using suffix_drop suffix_order.trans by blast
  qed
qed

definition trimmed :: "string \<Rightarrow> bool" where
  "trimmed s \<longleftrightarrow> unstripped space_runes s \<and> unstripped (map rev space_runes) (rev s)"

lemma unstripped_prefix: "unstripped rs s \<Longrightarrow> prefix t s \<Longrightarrow> unstripped rs t"
  by (auto simp: unstripped_def intro: prefix_order.trans)

lemma TrimSpace_trimmed: "trimmed (TrimSpace s)"
proof -
  let ?l = "strip_runes space_runes s"
  have "suffix (strip_runes (map rev space_runes) (rev ?l)) (rev ?l)"
    by (rule strip_runes_suffix)
  then have "prefix (TrimSpace s) ?l" by (simp add: TrimSpace_def suffix_to_prefix)
  then have "unstripped space_runes (TrimSpace s)"
    using strip_runes_clean unstripped_prefix by blast
  moreover have "unstripped (map rev space_runes) (rev (TrimSpace s))"
    by (simp add: TrimSpace_def strip_runes_clean)
  ultimately show ?thesis by (simp add: trimmed_def)
qed

lemma TrimSpace_id: "trimmed s \<Longrightarrow> TrimSpace s = s"
  by (simp add: TrimSpace_def trimmed_def strip_runes_id)

interpretation trim: sanitizer trimmed TrimSpace
  by unfold_locales (auto intro: TrimSpace_trimmed TrimSpace_id)

lemma TrimSpace_sublist: "set (TrimSpace s) \<subseteq> set s"
proof -
  have "set (TrimSpace s) \<subseteq> set (strip_runes space_runes s)"
    using strip_runes_suffix [of "map rev space_runes"] by (force simp: TrimSpace_def dest: set_mono_suffix)
  then show ?thesis using strip_runes_suffix set_mono_suffix by blast
qed

section \<open>Case\<close>

text \<open>
  Conversion of strings with bytes outside ASCII goes through the Unicode tables of package
  \<^verbatim>\<open>unicode\<close>: what they give is an argument.
\<close>

record unicode_tables =
  map_ToUpper :: "string \<Rightarrow> string"
  map_ToLower :: "string \<Rightarrow> string"
  fold_equal :: "string \<Rightarrow> string \<Rightarrow> bool"

definition lower_byte :: "char \<Rightarrow> char" where
  "lower_byte c = (if is_upper c then char_of (byte c + 32) else c)"

definition upper_byte :: "char \<Rightarrow> char" where
  "upper_byte c = (if is_lower c then char_of (byte c - 32) else c)"

definition ToLower :: "unicode_tables \<Rightarrow> string \<Rightarrow> string" where
  "ToLower u s = (if list_all is_ascii s then map lower_byte s else map_ToLower u s)"

definition ToUpper :: "unicode_tables \<Rightarrow> string \<Rightarrow> string" where
  "ToUpper u s = (if list_all is_ascii s then map upper_byte s else map_ToUpper u s)"

definition EqualFold :: "unicode_tables \<Rightarrow> string \<Rightarrow> string \<Rightarrow> bool" where
  "EqualFold u s t =
     (if list_all is_ascii s \<and> list_all is_ascii t then map lower_byte s = map lower_byte t
      else fold_equal u s t)"

lemma byte_char_of [simp]: "n < 256 \<Longrightarrow> byte (char_of n) = n"
  by (simp add: byte_def)

lemma byte_lower_byte: "byte (lower_byte c) = (if is_upper c then byte c + 32 else byte c)"
  by (auto simp: lower_byte_def is_upper_def)

lemma byte_upper_byte: "byte (upper_byte c) = (if is_lower c then byte c - 32 else byte c)"
  by (auto simp: upper_byte_def is_lower_def)

lemma lower_byte_not_upper: "\<not> is_upper (lower_byte c)"
  unfolding is_upper_def byte_lower_byte by auto

lemma lower_byte_idem [simp]: "lower_byte (lower_byte c) = lower_byte c"
  using lower_byte_not_upper by (simp add: lower_byte_def [of "lower_byte c"])

lemma EqualFold_refl_ascii: "list_all is_ascii s \<Longrightarrow> EqualFold u s s"
  by (simp add: EqualFold_def)

section \<open>Decimal numbers\<close>

definition digit_char :: "nat \<Rightarrow> char" where
  "digit_char d = char_of (48 + d)"

fun show_nat :: "nat \<Rightarrow> string" where
  "show_nat n = (if n < 10 then [digit_char n] else show_nat (n div 10) @ [digit_char (n mod 10)])"

declare show_nat.simps [simp del]

text \<open>\<^verbatim>\<open>strconv.Itoa\<close> on a 64-bit \<^verbatim>\<open>int\<close>.\<close>

definition show_int :: "int \<Rightarrow> string" where
  "show_int i = (if i < 0 then CHR ''-'' # show_nat (nat (- i)) else show_nat (nat i))"

definition Itoa :: "goint \<Rightarrow> string" where
  "Itoa w = show_int (sint w)"

definition digits_val :: "string \<Rightarrow> nat" where
  "digits_val ds = foldl (\<lambda>n c. n * 10 + (byte c - 48)) 0 ds"

text \<open>
  \<^verbatim>\<open>strconv.Atoi\<close>: an optional sign, at least one digit, nothing else, and a value that fits.
  \<open>None\<close> stands for a non-nil error.
\<close>

definition Atoi :: "string \<Rightarrow> goint option" where
  "Atoi s =
     (let (neg, ds) =
        (case s of
           [] \<Rightarrow> (False, [])
         | c # cs \<Rightarrow> if c = CHR ''-'' then (True, cs) else if c = CHR ''+'' then (False, cs) else (False, s));
       v = (if neg then - int (digits_val ds) else int (digits_val ds))
      in if ds \<noteq> [] \<and> list_all is_digit ds \<and> - (2 ^ 63) \<le> v \<and> v < 2 ^ 63
         then Some (word_of_int v) else None)"

lemma digit_char_digit: "d < 10 \<Longrightarrow> is_digit (digit_char d) \<and> byte (digit_char d) = 48 + d"
  by (simp add: is_digit_def digit_char_def)

lemma show_nat_digits: "list_all is_digit (show_nat n) \<and> show_nat n \<noteq> []"
proof (induction n rule: show_nat.induct)
  case (1 n)
  then show ?case
    by (cases "n < 10") (simp_all add: show_nat.simps [of n] digit_char_digit)
qed

lemma digits_val_show_nat: "digits_val (show_nat n) = n"
proof (induction n rule: show_nat.induct)
  case (1 n)
  show ?case
  proof (cases "n < 10")
    case True
    then show ?thesis by (simp add: show_nat.simps [of n] digits_val_def digit_char_digit)
  next
    case False
    with "1.IH" have "foldl (\<lambda>n c. n * 10 + (byte c - 48)) 0 (show_nat (n div 10)) = n div 10"
      by (simp add: digits_val_def)
    with False show ?thesis
      by (simp add: show_nat.simps [of n] digits_val_def digit_char_digit)
  qed
qed

lemma show_nat_inj: "show_nat m = show_nat n \<longleftrightarrow> m = n"
  using digits_val_show_nat by metis

lemma show_nat_hd:
  "show_nat n = c # cs \<Longrightarrow> c \<noteq> CHR ''-'' \<and> c \<noteq> CHR ''+''"
  using show_nat_digits [of n] by (auto simp: is_digit_def byte_def)

lemma Atoi_Itoa: "Atoi (Itoa w) = Some w"
proof (cases "sint w < 0")
  case True
  then show ?thesis
    using show_nat_digits [of "nat (- sint w)"] sint_64_bounds [of w]
    by (simp add: Atoi_def Itoa_def show_int_def digits_val_show_nat)
next
  case False
  obtain c cs where c: "show_nat (nat (sint w)) = c # cs"
    using show_nat_digits by (metis list.exhaust)
  have "c \<noteq> CHR ''-''" "c \<noteq> CHR ''+''" using show_nat_hd [OF c] by simp_all
  moreover have "list_all is_digit (c # cs)" "digits_val (c # cs) = nat (sint w)"
    using show_nat_digits [of "nat (sint w)"] digits_val_show_nat [of "nat (sint w)"] c by simp_all
  ultimately show ?thesis
    using False sint_64_bounds [of w] c by (simp add: Atoi_def Itoa_def show_int_def)
qed

interpretation decimal: codec "\<lambda>_. True" Itoa Atoi
  by unfold_locales (rule Atoi_Itoa)

end
