(* ===== verification/GoPath.thy ===== *)
theory GoPath
  imports GoStrings
begin

text \<open>
  Package \<^verbatim>\<open>path/filepath\<close> on Unix: \<^verbatim>\<open>Clean\<close>, \<^verbatim>\<open>Join\<close> and \<^verbatim>\<open>Rel\<close>. A path is split at its slashes;
  \<^verbatim>\<open>Clean\<close> drops empty and \<^verbatim>\<open>.\<close> elements and resolves \<^verbatim>\<open>..\<close> against the element before it.
  The pair of rootedness and cleaned elements (\<open>location\<close>) is what a path denotes lexically;
  the lemmas show that \<open>Clean\<close> keeps it and that joining an ordinary file name extends it by
  that name.
\<close>

abbreviation slash :: char where
  "slash \<equiv> CHR ''/''"

abbreviation dot :: string where
  "dot \<equiv> ''.''"

abbreviation dotdot :: string where
  "dotdot \<equiv> ''..''"

definition IsAbs :: "string \<Rightarrow> bool" where
  "IsAbs p \<longleftrightarrow> HasPrefix p [slash]"

text \<open>The elements of a path, with the ones already emitted on a stack (innermost first).\<close>

fun clean_segs :: "bool \<Rightarrow> string list \<Rightarrow> string list \<Rightarrow> string list" where
  "clean_segs rooted acc [] = rev acc"
| "clean_segs rooted acc (s # ss) =
     (if s = [] \<or> s = dot then clean_segs rooted acc ss
      else if s = dotdot then
        (case acc of
           [] \<Rightarrow> if rooted then clean_segs rooted [] ss else clean_segs rooted [dotdot] ss
         | a # as \<Rightarrow> if a = dotdot then clean_segs rooted (dotdot # acc) ss else clean_segs rooted as ss)
      else clean_segs rooted (s # acc) ss)"

definition location :: "string \<Rightarrow> bool \<times> string list" where
  "location p = (IsAbs p, clean_segs (IsAbs p) [] (Split slash p))"

fun render_path :: "bool \<times> string list \<Rightarrow> string" where
  "render_path (rooted, ss) =
     (if rooted then slash # Join ss [slash] else if ss = [] then dot else Join ss [slash])"

definition Clean :: "string \<Rightarrow> string" where
  "Clean p = render_path (location p)"

definition filepath_Join :: "string \<Rightarrow> string \<Rightarrow> string" where
  "filepath_Join a b =
     (if a \<noteq> [] then Clean (a @ slash # b) else if b \<noteq> [] then Clean b else [])"

fun strip_common :: "string list \<Rightarrow> string list \<Rightarrow> string list \<times> string list" where
  "strip_common (a # as) (b # bs) = (if a = b then strip_common as bs else (a # as, b # bs))"
| "strip_common as bs = (as, bs)"

text \<open>\<^verbatim>\<open>filepath.Rel\<close>; \<open>None\<close> is its error.\<close>

definition filepath_Rel :: "string \<Rightarrow> string \<Rightarrow> string option" where
  "filepath_Rel basepath targpath =
     (if Clean targpath = Clean basepath then Some dot
      else if IsAbs basepath \<noteq> IsAbs targpath then None
      else
        let bs = snd (location basepath);
            ts = (if Clean targpath = dot then [dot] else snd (location targpath));
            (bs', ts') = strip_common bs ts
        in if bs' \<noteq> [] \<and> ts' \<noteq> [] \<and> hd bs' = dotdot then None
           else Some (Join (map (\<lambda>_. dotdot) bs' @ ts') [slash]))"

section \<open>File names and normal forms\<close>

definition file_name :: "string \<Rightarrow> bool" where
  "file_name s \<longleftrightarrow> s \<notin> {[], dot, dotdot} \<and> slash \<notin> set s"

definition normal_segs :: "bool \<Rightarrow> string list \<Rightarrow> bool" where
  "normal_segs rooted ss \<longleftrightarrow>
     (\<exists>k ns. ss = replicate k dotdot @ ns \<and> list_all file_name ns \<and> (rooted \<longrightarrow> k = 0))"

lemma file_nameD [dest]: "file_name s \<Longrightarrow> s \<noteq> [] \<and> s \<noteq> dot \<and> s \<noteq> dotdot \<and> slash \<notin> set s"
  by (simp add: file_name_def)

lemma dotdot_not_file_name [simp]: "\<not> file_name dotdot"
  by (simp add: file_name_def)

lemma normal_segs_snoc: "normal_segs r ss \<Longrightarrow> file_name s \<Longrightarrow> normal_segs r (ss @ [s])"
proof -
  assume "normal_segs r ss" and s: "file_name s"
  then obtain k ns where "ss = replicate k dotdot @ ns" "list_all file_name ns" "r \<longrightarrow> k = 0"
    by (auto simp: normal_segs_def)
  with s have "ss @ [s] = replicate k dotdot @ (ns @ [s])" "list_all file_name (ns @ [s])" "r \<longrightarrow> k = 0"
    by simp_all
  then show ?thesis unfolding normal_segs_def by blast
qed

lemma normal_segs_butlast: "normal_segs r (ss @ [s]) \<Longrightarrow> s \<noteq> dotdot \<Longrightarrow> normal_segs r ss"
proof -
  assume n: "normal_segs r (ss @ [s])" and s: "s \<noteq> dotdot"
  from n obtain k ns where kn: "ss @ [s] = replicate k dotdot @ ns"
    "list_all file_name ns" "r \<longrightarrow> k = 0" by (auto simp: normal_segs_def)
  show ?thesis
  proof (cases ns rule: rev_cases)
    case Nil
    with kn(1) s show ?thesis by (metis append_Nil2 in_set_replicate last_in_set last_snoc snoc_eq_iff_butlast)
  next
    case (snoc ms m)
    with kn show ?thesis unfolding normal_segs_def by auto
  qed
qed

lemma normal_segs_dotdot_last:
  assumes "normal_segs r (ss @ [dotdot])"
  shows "\<not> r \<and> ss = replicate (length ss) dotdot"
proof -
  from assms obtain k ns where kn: "ss @ [dotdot] = replicate k dotdot @ ns"
    "list_all file_name ns" "r \<longrightarrow> k = 0" by (auto simp: normal_segs_def)
  show ?thesis
  proof (cases ns rule: rev_cases)
    case Nil
    with kn(1) have eq: "ss @ [dotdot] = replicate k dotdot" by simp
    then have "k = Suc (length ss)" by (metis length_append_singleton length_replicate)
    with eq have "ss = replicate (length ss) dotdot"
      by (metis append_eq_append_conv length_replicate replicate_Suc replicate_append_same)
    with \<open>k = Suc (length ss)\<close> kn(3) show ?thesis by auto
  next
    case (snoc ms m)
    with kn show ?thesis by auto
  qed
qed

text \<open>The stack of \<^const>\<open>clean_segs\<close> is always in normal form.\<close>

lemma clean_segs_normal:
  "normal_segs r (rev acc) \<Longrightarrow> list_all (\<lambda>s. slash \<notin> set s) ss \<Longrightarrow> normal_segs r (clean_segs r acc ss)"
proof (induction r acc ss rule: clean_segs.induct)
  case (1 r acc)
  then show ?case by simp
next
  case (2 r acc s ss)
  show ?case
  proof (cases "s = [] \<or> s = dot")
    case True
    with 2 show ?thesis by auto
  next
    case nd: False
    show ?thesis
    proof (cases "s = dotdot")
      case False
      with nd "2.prems"(2) have "file_name s" by (simp add: file_name_def)
      with "2.prems"(1) have "normal_segs r (rev (s # acc))" by (simp add: normal_segs_snoc)
      with 2 nd False show ?thesis by simp
    next
      case dd: True
      show ?thesis
      proof (cases acc)
        case Nil
        have "normal_segs r []" by (simp add: normal_segs_def)
        moreover have "\<not> r \<Longrightarrow> normal_segs r [dotdot]"
          unfolding normal_segs_def by (intro exI [of _ "1::nat"] exI [of _ "[]"]) simp
        ultimately show ?thesis using 2 Nil dd by (cases r) simp_all
      next
        case (Cons a as)
        show ?thesis
        proof (cases "a = dotdot")
          case True
          from "2.prems"(1) Cons True have n: "normal_segs r (rev as @ [dotdot])" by simp
          then have "\<not> r" "rev as = replicate (length as) dotdot"
            using normal_segs_dotdot_last [OF n] by auto
          then have "normal_segs r (rev (dotdot # acc))"
            unfolding normal_segs_def using Cons True
            by (intro exI [of _ "length as + 2"] exI [of _ "[]"])
              (simp add: replicate_append_same [symmetric])
          with 2 Cons True dd show ?thesis by simp
        next
          case False
          with "2.prems"(1) Cons have "normal_segs r (rev as)"
            using normal_segs_butlast by simp
          with 2 Cons False dd show ?thesis by simp
        qed
      qed
    qed
  qed
qed

lemma clean_segs_dotdots:
  "\<not> r \<Longrightarrow> set acc \<subseteq> {dotdot} \<Longrightarrow> clean_segs r acc (replicate k dotdot @ ss) = clean_segs r (replicate k dotdot @ acc) ss"
proof (induction k arbitrary: acc)
  case 0
  then show ?case by simp
next
  case (Suc k)
  have "clean_segs r acc (replicate (Suc k) dotdot @ ss) = clean_segs r (dotdot # acc) (replicate k dotdot @ ss)"
    using Suc.prems by (cases acc) auto
  also have "\<dots> = clean_segs r (replicate k dotdot @ dotdot # acc) ss"
    using Suc by simp
  finally show ?case by (simp add: replicate_app_Cons_same)
qed

lemma clean_segs_names: "list_all file_name ns \<Longrightarrow> clean_segs r acc ns = rev acc @ ns"
proof (induction ns arbitrary: acc)
  case Nil
  then show ?case by simp
next
  case (Cons n ns)
  then have "n \<noteq> []" "n \<noteq> dot" "n \<noteq> dotdot" by auto
  with Cons show ?case by simp
qed

lemma clean_segs_id: "normal_segs r ss \<Longrightarrow> clean_segs r [] ss = ss"
  unfolding normal_segs_def
  by (cases r) (auto simp: clean_segs_names clean_segs_dotdots)

lemma clean_segs_append:
  "clean_segs r acc (ss @ ts) = clean_segs r (rev (clean_segs r acc ss)) ts"
proof (induction r acc ss rule: clean_segs.induct)
  case (1 r acc)
  show ?case by simp
next
  case (2 r acc s ss)
  show ?case
  proof (cases acc)
    case Nil
    with 2 show ?thesis by (cases r) simp_all
  next
    case (Cons a as)
    with 2 show ?thesis by simp
  qed
qed

lemma Split_append: "Split c (a @ c # b) = Split c a @ Split c b"
proof (induction a)
  case Nil
  show ?case by simp
next
  case (Cons x xs)
  obtain y ys where "Split c xs = y # ys" by (cases "Split c xs") simp_all
  with Cons show ?case by simp
qed

lemma Split_Join: "ss \<noteq> [] \<Longrightarrow> list_all (\<lambda>s. c \<notin> set s) ss \<Longrightarrow> Split c (Join ss [c]) = ss"
  by (induction ss "[c]" rule: Join.induct) (simp_all add: Split_free Split_append_sep)

lemma normal_segs_no_slash: "normal_segs r ss \<Longrightarrow> list_all (\<lambda>s. slash \<notin> set s \<and> s \<noteq> []) ss"
  by (auto simp: normal_segs_def list_all_iff)

lemma location_normal: "normal_segs (fst (location p)) (snd (location p))"
proof -
  have "list_all (\<lambda>s. slash \<notin> set s) (Split slash p)"
    using Split_no_sep by (auto simp: list_all_iff)
  moreover have "normal_segs (IsAbs p) (rev [])" by (simp add: normal_segs_def)
  ultimately show ?thesis unfolding location_def fst_conv snd_conv by (rule clean_segs_normal[rotated])
qed

lemma Join_hd:
  assumes "ss \<noteq> []" "list_all (\<lambda>s. slash \<notin> set s \<and> s \<noteq> []) ss"
  shows "\<not> IsAbs (Join ss [slash])"
proof -
  obtain s ss' where ss: "ss = s # ss'" using assms(1) by (cases ss) auto
  with assms(2) obtain x xs where "s = x # xs" "x \<noteq> slash" by (cases s) auto
  with ss show ?thesis by (cases ss') (simp_all add: IsAbs_def HasPrefix_def)
qed

lemma location_render:
  assumes "normal_segs r ss"
  shows "location (render_path (r, ss)) = (r, ss)"
proof -
  note ns = normal_segs_no_slash [OF assms]
  then have sl: "list_all (\<lambda>s. slash \<notin> set s) ss" by (auto simp: list_all_iff)
  show ?thesis
  proof (cases r)
    case True
    have "Split slash (slash # Join ss [slash]) = [] # (if ss = [] then [[]] else ss)"
      using Split_Join [OF _ sl] by auto
    then show ?thesis
      using True clean_segs_id [OF assms] by (simp add: location_def IsAbs_def HasPrefix_def)
  next
    case False
    show ?thesis
    proof (cases "ss = []")
      case True
      with False show ?thesis by (simp add: location_def IsAbs_def HasPrefix_def)
    next
      case ne: False
      then have "\<not> IsAbs (Join ss [slash])" using Join_hd ns by blast
      then show ?thesis
        using False ne Split_Join [OF ne sl] clean_segs_id [OF assms] by (simp add: location_def)
    qed
  qed
qed

text \<open>\<open>Clean\<close> keeps what a path denotes, and cleaning again changes nothing.\<close>

lemma location_Clean: "location (Clean p) = location p"
proof -
  obtain r ss where l: "location p = (r, ss)" by fastforce
  with location_normal [of p] show ?thesis by (simp add: Clean_def location_render del: render_path.simps)
qed

lemma Clean_Clean: "Clean (Clean p) = Clean p"
  by (metis Clean_def location_Clean)

lemma Clean_eq_location: "Clean p = Clean q \<longleftrightarrow> location p = location q"
  using location_Clean by (metis Clean_def)

lemma IsAbs_Clean: "IsAbs (Clean p) = IsAbs p"
  using location_Clean [of p] by (simp add: location_def)

interpretation clean_path: sanitizer "\<lambda>p. Clean p = p" Clean
  by unfold_locales (auto simp: Clean_Clean)

section \<open>Joining a file name\<close>

lemma location_Join:
  "a \<noteq> [] \<Longrightarrow> location (filepath_Join a b) =
     (IsAbs a, clean_segs (IsAbs a) (rev (snd (location a))) (Split slash b))"
proof -
  assume a: "a \<noteq> []"
  then have abs: "IsAbs (a @ slash # b) = IsAbs a" by (cases a) (simp_all add: IsAbs_def HasPrefix_def)
  have "location (filepath_Join a b) = location (a @ slash # b)"
    using a by (simp add: filepath_Join_def location_Clean)
  also have "\<dots> = (IsAbs a, clean_segs (IsAbs a) (rev (snd (location a))) (Split slash b))"
    by (simp add: location_def abs Split_append clean_segs_append)
  finally show ?thesis .
qed

lemma location_empty: "location [] = (False, [])"
  by (simp add: location_def IsAbs_def HasPrefix_def)

lemma location_Join_name:
  assumes "file_name n"
  shows "location (filepath_Join a n) = (IsAbs a, snd (location a) @ [n])"
proof (cases "a = []")
  case False
  with assms show ?thesis
    using location_Join [OF False, of n] clean_segs_names [of "[n]"] by (auto simp: Split_free)
next
  case True
  from assms have n: "n \<noteq> []" "\<not> IsAbs n" "slash \<notin> set n" by (auto simp: IsAbs_def HasPrefix_def prefix_def)
  then have "filepath_Join a n = Clean n" using True by (simp add: filepath_Join_def)
  moreover have "location n = (False, [n])"
    using n assms clean_segs_names [of "[n]"] by (auto simp: location_def Split_free)
  ultimately show ?thesis
    using True by (simp add: location_Clean location_empty IsAbs_def HasPrefix_def)
qed

lemma strip_common_append: "strip_common as (as @ bs) = ([], bs)"
  by (induction as) (cases bs; simp)+

lemma filepath_Rel_Join_name:
  assumes "file_name n"
  shows "filepath_Rel a (filepath_Join a n) = Some n"
proof -
  have l: "location (filepath_Join a n) = (IsAbs a, snd (location a) @ [n])"
    by (rule location_Join_name [OF assms])
  have "location (filepath_Join a n) \<noteq> location a" using l by (metis append_self_conv list.distinct(1) snd_conv)
  then have ne: "Clean (filepath_Join a n) \<noteq> Clean a" by (simp add: Clean_eq_location)
  have abs: "IsAbs (filepath_Join a n) = IsAbs a" using l by (simp add: location_def)
  have "location dot = (False, [])" by (simp add: location_def IsAbs_def HasPrefix_def)
  moreover have "Clean dot = dot" by (simp add: Clean_def \<open>location dot = (False, [])\<close>)
  ultimately have "Clean (filepath_Join a n) \<noteq> dot"
    using l location_Clean [of "filepath_Join a n"] by auto
  then show ?thesis
    using ne abs l by (simp add: filepath_Rel_def strip_common_append)
qed

end
