(* ===== verification/GoUrl.thy ===== *)
theory GoUrl
  imports GoStrings
begin

text \<open>
  \<^verbatim>\<open>url.Parse\<close> of Go 1.25 (the toolchain \<^verbatim>\<open>src/go.mod\<close> names), as far as the program reads its
  result: whether it fails, the scheme and the host. The program calls it on repository URLs and
  on the \<^verbatim>\<open>Origin\<close> of a WebSocket request. The one library function behind it that is not spelled
  out is the syntax of IP literals in brackets (\<^verbatim>\<open>netip.ParseAddr\<close>): an argument \<open>ip6\<close>.
\<close>

section \<open>Percent escapes\<close>

datatype escape_mode = EncodePath | EncodeHost | EncodeZone | EncodeUserPassword | EncodeFragment

definition ishex :: "char \<Rightarrow> bool" where
  "ishex c \<longleftrightarrow> is_digit c \<or> (97 \<le> byte c \<and> byte c \<le> 102) \<or> (65 \<le> byte c \<and> byte c \<le> 70)"

definition unhex :: "char \<Rightarrow> nat" where
  "unhex c = (if is_digit c then byte c - 48 else if byte c \<ge> 97 then byte c - 97 + 10 else byte c - 65 + 10)"

text \<open>The ASCII bytes a host may hold unescaped (\<^verbatim>\<open>shouldEscape\<close> is false for them).\<close>

definition host_byte :: "char \<Rightarrow> bool" where
  "host_byte c \<longleftrightarrow> is_alnum c \<or> c \<in> set ''!$&()*+,;=:[]<>-_.~'' \<or> byte c = 39 \<or> byte c = 34"

fun unescape :: "escape_mode \<Rightarrow> string \<Rightarrow> string option" where
  "unescape mode [] = Some []"
| "unescape mode (c # s) =
     (if c = CHR ''%'' then
        (case s of
           a # b # s' \<Rightarrow>
             (let v = 16 * unhex a + unhex b in
              if \<not> ishex a \<or> \<not> ishex b then None
              else if mode = EncodeHost \<and> unhex a < 8 \<and> [a, b] \<noteq> ''25'' then None
              else if mode = EncodeZone \<and> [a, b] \<noteq> ''25'' \<and> v \<noteq> 32 \<and> \<not> (host_byte (char_of v)) then None
              else map_option ((#) (char_of v)) (unescape mode s'))
         | _ \<Rightarrow> None)
      else if mode \<in> {EncodeHost, EncodeZone} \<and> is_ascii c \<and> \<not> host_byte c then None
      else map_option ((#) c) (unescape mode s))"

section \<open>The parts of a URL\<close>

text \<open>\<^verbatim>\<open>getScheme\<close>: \<open>None\<close> for the error, otherwise the scheme (empty if there is none) and the rest.\<close>

definition scheme_tail :: "char \<Rightarrow> bool" where
  "scheme_tail c \<longleftrightarrow> is_digit c \<or> c = CHR ''+'' \<or> c = CHR ''-'' \<or> c = CHR ''.''"

definition scheme_letter :: "char \<Rightarrow> bool" where
  "scheme_letter c \<longleftrightarrow> is_upper c \<or> is_lower c"

fun getScheme_from :: "string \<Rightarrow> string \<Rightarrow> string \<Rightarrow> (string \<times> string) option" where
  "getScheme_from raw acc [] = Some ([], raw)"
| "getScheme_from raw acc (c # s) =
     (if scheme_letter c then getScheme_from raw (acc @ [c]) s
      else if scheme_tail c then (if acc = [] then Some ([], raw) else getScheme_from raw (acc @ [c]) s)
      else if c = CHR '':'' then (if acc = [] then None else Some (acc, s))
      else Some ([], raw))"

definition getScheme :: "string \<Rightarrow> (string \<times> string) option" where
  "getScheme raw = getScheme_from raw [] raw"

definition stringContainsCTLByte :: "string \<Rightarrow> bool" where
  "stringContainsCTLByte s \<longleftrightarrow> list_ex (\<lambda>c. byte c < 32 \<or> byte c = 127) s"

definition validUserinfo :: "string \<Rightarrow> bool" where
  "validUserinfo s \<longleftrightarrow> list_all (\<lambda>c. is_alnum c \<or> c \<in> set ''-._:~!$&()*+,;=%@'' \<or> byte c = 39) s"

definition validOptionalPort :: "string \<Rightarrow> bool" where
  "validOptionalPort p = (case p of [] \<Rightarrow> True | c # ds \<Rightarrow> c = CHR '':'' \<and> list_all is_digit ds)"

text \<open>\<^verbatim>\<open>strings.LastIndex\<close> of a byte: the parts around its last occurrence.\<close>

definition cut_last :: "char \<Rightarrow> string \<Rightarrow> (string \<times> string) option" where
  "cut_last c s = (if c \<in> set s
     then Some (rev (tl (dropWhile (\<lambda>x. x \<noteq> c) (rev s))), rev (takeWhile (\<lambda>x. x \<noteq> c) (rev s)))
     else None)"

definition parse_ip_literal :: "(string \<Rightarrow> bool) \<Rightarrow> string \<Rightarrow> string option" where
  "parse_ip_literal ip6 body =
     (case cut_last (CHR '']'') body of
        None \<Rightarrow> None
      | Some (hostname, colonPort) \<Rightarrow>
          if \<not> validOptionalPort colonPort then None
          else
            (let name = (case Index hostname ''%25'' of
                           None \<Rightarrow> unescape EncodeHost hostname
                         | Some i \<Rightarrow>
                             (case (unescape EncodeHost (take i hostname), unescape EncodeZone (drop i hostname)) of
                                (Some a, Some z) \<Rightarrow> Some (a @ z)
                              | _ \<Rightarrow> None)) in
             case (name, unescape EncodeHost colonPort) of
               (Some n, Some p) \<Rightarrow> if ip6 n then Some (''['' @ n @ '']'' @ p) else None
             | _ \<Rightarrow> None))"

definition parseHost :: "(string \<Rightarrow> bool) \<Rightarrow> string \<Rightarrow> string option" where
  "parseHost ip6 host =
     (case cut_last (CHR ''['') host of
        Some ([], body) \<Rightarrow> parse_ip_literal ip6 body
      | Some (_, _) \<Rightarrow> None
      | None \<Rightarrow>
          (case cut_last (CHR '':'') host of
             Some (_, port) \<Rightarrow> if validOptionalPort ('':'' @ port) then unescape EncodeHost host else None
           | None \<Rightarrow> unescape EncodeHost host))"

definition parseAuthority :: "(string \<Rightarrow> bool) \<Rightarrow> string \<Rightarrow> string option" where
  "parseAuthority ip6 authority =
     (case cut_last (CHR ''@'') authority of
        None \<Rightarrow> parseHost ip6 authority
      | Some (userinfo, hostport) \<Rightarrow>
          (case parseHost ip6 hostport of
             None \<Rightarrow> None
           | Some host \<Rightarrow>
               if \<not> validUserinfo userinfo then None
               else if \<not> Contains userinfo '':'' then
                 (if unescape EncodeUserPassword userinfo = None then None else Some host)
               else
                 (let (username, password, _) = Cut userinfo '':'' in
                  if unescape EncodeUserPassword username = None \<or> unescape EncodeUserPassword password = None
                  then None else Some host)))"

record url =
  url_Scheme :: string
  url_Host :: string

text \<open>What follows the scheme; \<open>None\<close> is an error.\<close>

definition parse_hierarchical :: "(string \<Rightarrow> bool) \<Rightarrow> string \<Rightarrow> string \<Rightarrow> url option" where
  "parse_hierarchical ip6 scheme rest =
     (if HasPrefix rest ''//'' \<and> (scheme \<noteq> [] \<or> \<not> HasPrefix rest ''///'') then
        (let auth = drop 2 rest;
             (authority, path) = (case Index auth ''/'' of
                None \<Rightarrow> (auth, []) | Some i \<Rightarrow> (take i auth, drop i auth)) in
         case parseAuthority ip6 authority of
           None \<Rightarrow> None
         | Some host \<Rightarrow> if unescape EncodePath path = None then None
                          else Some \<lparr>url_Scheme = scheme, url_Host = host\<rparr>)
      else if unescape EncodePath rest = None then None
      else Some \<lparr>url_Scheme = scheme, url_Host = []\<rparr>)"

definition url_parse :: "unicode_tables \<Rightarrow> (string \<Rightarrow> bool) \<Rightarrow> string \<Rightarrow> url option" where
  "url_parse ut ip6 raw =
     (if stringContainsCTLByte raw then None
      else if raw = ''*'' then Some \<lparr>url_Scheme = [], url_Host = []\<rparr>
      else case getScheme raw of
        None \<Rightarrow> None
      | Some (scheme0, rest0) \<Rightarrow>
          (let scheme = ToLower ut scheme0;
               rest = (if HasSuffix rest0 ''?'' \<and> count_list rest0 (CHR ''?'') = 1 then butlast rest0
                       else fst (Cut rest0 ''?'')) in
           if \<not> HasPrefix rest ''/'' then
             (if scheme \<noteq> [] then Some \<lparr>url_Scheme = scheme, url_Host = []\<rparr>
              else if Contains (fst (Cut rest ''/'')) '':'' then None
              else parse_hierarchical ip6 scheme rest)
           else parse_hierarchical ip6 scheme rest))"

definition url_Parse :: "unicode_tables \<Rightarrow> (string \<Rightarrow> bool) \<Rightarrow> string \<Rightarrow> url option" where
  "url_Parse ut ip6 raw =
     (let (u, frag, _) = Cut raw ''#'' in
      case url_parse ut ip6 u of
        None \<Rightarrow> None
      | Some p \<Rightarrow> if frag = [] then Some p
                  else if unescape EncodeFragment frag = None then None else Some p)"

section \<open>Schemes\<close>

lemma getScheme_from_Some:
  "getScheme_from raw acc s = Some (sch, rest) \<Longrightarrow> sch \<noteq> [] \<Longrightarrow>
     \<exists>t. sch = acc @ t \<and> s = t @ '':'' @ rest \<and> list_all (\<lambda>c. scheme_letter c \<or> scheme_tail c) t"
proof (induction s arbitrary: acc)
  case Nil
  then show ?case by simp
next
  case (Cons c s)
  show ?case
  proof (cases "scheme_letter c \<or> scheme_tail c \<and> acc \<noteq> []")
    case True
    with Cons.prems have "getScheme_from raw (acc @ [c]) s = Some (sch, rest)" by (auto split: if_splits)
    from Cons.IH [OF this Cons.prems(2)] True show ?thesis by fastforce
  next
    case False
    with Cons.prems show ?thesis by (auto split: if_splits)
  qed
qed

text \<open>The scheme of a string that starts with scheme characters and a colon is that prefix.\<close>

lemma getScheme_unique:
  assumes "getScheme raw = Some (sch, rest)" "raw = t @ '':'' @ r"
    and t: "list_all (\<lambda>c. scheme_letter c \<or> scheme_tail c) t" and "sch \<noteq> []"
  shows "sch = t \<and> rest = r"
proof -
  obtain t' where t': "sch = t'" "raw = t' @ '':'' @ rest" "list_all (\<lambda>c. scheme_letter c \<or> scheme_tail c) t'"
    using getScheme_from_Some [of raw "[]" raw sch rest] assms(1,4) by (auto simp: getScheme_def)
  have colon: "\<not> (scheme_letter (CHR '':'') \<or> scheme_tail (CHR '':''))" by code_simp
  have "takeWhile (\<lambda>c. scheme_letter c \<or> scheme_tail c) (u @ '':'' @ v) = u"
    if "list_all (\<lambda>c. scheme_letter c \<or> scheme_tail c) u" for u v
    using that colon by (simp add: takeWhile_append list_all_iff)
  from this [OF t, of r] this [OF t'(3), of rest] t'(2) assms(2) have "t' = t" by simp
  then show ?thesis using t' assms(2) by simp
qed

lemma parse_hierarchical_scheme: "parse_hierarchical ip6 sch rest = Some u \<Longrightarrow> url_Scheme u = sch"
  by (auto simp: parse_hierarchical_def Let_def split_def split: if_splits option.splits)

lemma url_parse_scheme:
  assumes "url_parse ut ip6 raw = Some u" "url_Scheme u \<noteq> []"
  shows "\<exists>sch rest. getScheme raw = Some (sch, rest) \<and> url_Scheme u = ToLower ut sch"
  using assms
  by (auto simp: url_parse_def Let_def split: if_splits option.splits prod.splits
      dest: parse_hierarchical_scheme)

end
