(* ===== verification/Host.thy ===== *)
theory Host
  imports GoPath
begin

text \<open>
  The machine the daemon runs on, as far as \<^verbatim>\<open>os\<close>, \<^verbatim>\<open>os/exec\<close> and \<^verbatim>\<open>time\<close> show it. What the machine
  answers is not code of the repository: it is an argument \<open>os\<close> of every function that asks, a record
  of functions on an abstract world \<open>'w\<close>. Reads do not change the world; running a command, making
  a directory, creating, writing and removing a file, and looking at the clock may.

  A \<open>machine\<close> is the world together with the list of the commands the daemon has started: the list
  is never read by the program, it lets a theorem speak of what was run. Components extend the record
  with their own state.

  The second part models \<^verbatim>\<open>src/internal/execpg/\<close>: how a command is built, and which processes are
  alive after its context is cancelled.
\<close>

section \<open>Commands\<close>

text \<open>
  An \<^verbatim>\<open>exec.Cmd\<close>: program, arguments (without the program's name), working directory (empty: the
  daemon's own), environment (\<open>None\<close>: inherited), and the two attributes \<^verbatim>\<open>execpg\<close> sets.
\<close>

record command =
  cmd_Name :: string
  cmd_Args :: "string list"
  cmd_Dir :: string
  cmd_Env :: "string list option"
  cmd_Setpgid :: bool
  cmd_WaitDelay :: duration

datatype exec_error = Exit_error string | Other_error string

fun exec_error_text :: "exec_error \<Rightarrow> string" where
  "exec_error_text (Exit_error m) = m"
| "exec_error_text (Other_error m) = m"

record exec_result =
  res_Stdout :: string
  res_Stderr :: string
  res_Combined :: string
  res_Err :: "exec_error option"

section \<open>The operating system\<close>

record 'w os =
  os_Getenv :: "'w \<Rightarrow> string \<Rightarrow> string"
  os_Environ :: "'w \<Rightarrow> string list"
  os_Stat_ok :: "'w \<Rightarrow> string \<Rightarrow> bool"
  os_ReadFile :: "'w \<Rightarrow> string \<Rightarrow> string option"
  os_ReadNoFollow :: "'w \<Rightarrow> string \<Rightarrow> string option"
  os_ReadDir :: "'w \<Rightarrow> string \<Rightarrow> (string \<times> bool) list option"
  os_Setenv :: "string \<Rightarrow> string \<Rightarrow> 'w \<Rightarrow> bool \<times> 'w"
  os_MkdirAll :: "string \<Rightarrow> 'w \<Rightarrow> bool \<times> 'w"
  os_WriteFile :: "string \<Rightarrow> string \<Rightarrow> 'w \<Rightarrow> bool \<times> 'w"
  os_CreateTemp :: "string \<Rightarrow> string \<Rightarrow> 'w \<Rightarrow> string option \<times> 'w"
  os_Remove :: "string \<Rightarrow> 'w \<Rightarrow> 'w"
  os_Exec :: "command \<Rightarrow> 'w \<Rightarrow> exec_result \<times> 'w"
  os_Now :: "'w \<Rightarrow> gotime \<times> 'w"

record 'w machine =
  world :: 'w
  ran :: "command list"

definition run_command :: "'w os \<Rightarrow> command \<Rightarrow> ('w, 'z) machine_scheme \<Rightarrow> exec_result \<times> ('w, 'z) machine_scheme" where
  "run_command os c m = (let (r, w) = os_Exec os c (world m) in (r, m\<lparr>world := w, ran := ran m @ [c]\<rparr>))"

definition time_Now :: "'w os \<Rightarrow> ('w, 'z) machine_scheme \<Rightarrow> gotime \<times> ('w, 'z) machine_scheme" where
  "time_Now os m = (let (t, w) = os_Now os (world m) in (t, m\<lparr>world := w\<rparr>))"

definition make_dir :: "'w os \<Rightarrow> string \<Rightarrow> ('w, 'z) machine_scheme \<Rightarrow> bool \<times> ('w, 'z) machine_scheme" where
  "make_dir os d m = (let (ok, w) = os_MkdirAll os d (world m) in (ok, m\<lparr>world := w\<rparr>))"

definition write_file :: "'w os \<Rightarrow> string \<Rightarrow> string \<Rightarrow> ('w, 'z) machine_scheme \<Rightarrow> bool \<times> ('w, 'z) machine_scheme" where
  "write_file os p d m = (let (ok, w) = os_WriteFile os p d (world m) in (ok, m\<lparr>world := w\<rparr>))"

definition create_temp :: "'w os \<Rightarrow> string \<Rightarrow> string \<Rightarrow> ('w, 'z) machine_scheme \<Rightarrow> string option \<times> ('w, 'z) machine_scheme" where
  "create_temp os d pat m = (let (p, w) = os_CreateTemp os d pat (world m) in (p, m\<lparr>world := w\<rparr>))"

definition remove_file :: "'w os \<Rightarrow> string \<Rightarrow> ('w, 'z) machine_scheme \<Rightarrow> ('w, 'z) machine_scheme" where
  "remove_file os p m = m\<lparr>world := os_Remove os p (world m)\<rparr>"

lemma run_command_ran [frame_simps]: "ran (snd (run_command os c m)) = ran m @ [c]"
  by (simp add: run_command_def split_def Let_def)

lemma machine_ran_frames [frame_simps]:
  "ran (snd (time_Now os m)) = ran m" "ran (snd (make_dir os d m)) = ran m"
  "ran (snd (write_file os p t m)) = ran m" "ran (snd (create_temp os d pat m)) = ran m"
  "ran (remove_file os p m) = ran m"
  by (simp_all add: time_Now_def make_dir_def write_file_def create_temp_def remove_file_def split_def Let_def)

lemma machine_more_frames [frame_simps]:
  "machine.more (snd (run_command os c m)) = machine.more m"
  "machine.more (snd (time_Now os m)) = machine.more m" "machine.more (snd (make_dir os d m)) = machine.more m"
  "machine.more (snd (write_file os p t m)) = machine.more m"
  "machine.more (snd (create_temp os d pat m)) = machine.more m"
  "machine.more (remove_file os p m) = machine.more m"
  by (simp_all add: run_command_def time_Now_def make_dir_def write_file_def create_temp_def remove_file_def split_def Let_def)

section \<open>Process groups\<close>

definition DefaultWaitDelay :: duration where
  "DefaultWaitDelay = 5 * Second"

definition exec_Configure :: "bool \<Rightarrow> command \<Rightarrow> command" where
  "exec_Configure unix c =
     (let c1 = (if unix then c\<lparr>cmd_Setpgid := True\<rparr> else c) in
      if cmd_WaitDelay c1 = 0 then c1\<lparr>cmd_WaitDelay := DefaultWaitDelay\<rparr> else c1)"

definition plain_command :: "string \<Rightarrow> string list \<Rightarrow> command" where
  "plain_command name args =
     \<lparr>cmd_Name = name, cmd_Args = args, cmd_Dir = [], cmd_Env = None, cmd_Setpgid = False, cmd_WaitDelay = 0\<rparr>"

text \<open>The daemon ships as a Linux container image, so the build is the \<^verbatim>\<open>unix\<close> one.\<close>

definition CommandContext :: "string \<Rightarrow> string list \<Rightarrow> command" where
  "CommandContext name args = exec_Configure True (plain_command name args)"

lemma CommandContext_simps [simp]:
  "cmd_Name (CommandContext n as) = n" "cmd_Args (CommandContext n as) = as"
  "cmd_Dir (CommandContext n as) = []" "cmd_Env (CommandContext n as) = None"
  "cmd_Setpgid (CommandContext n as)"
  by (simp_all add: CommandContext_def exec_Configure_def plain_command_def Let_def)

text \<open>
  Processes with their group: a child starts in a group of its own when \<^verbatim>\<open>Setpgid\<close> is set, in the
  daemon's group otherwise, and every process a member forks joins the member's group unless it
  leaves on purpose. \<^verbatim>\<open>Cancel\<close> signals the whole group (a negative pid) and falls back to the child
  alone when the group cannot be signalled.
\<close>

record process =
  pid :: nat
  pgid :: nat

definition start_child :: "nat \<Rightarrow> nat \<Rightarrow> command \<Rightarrow> process" where
  "start_child daemon_group p c = \<lparr>pid = p, pgid = (if cmd_Setpgid c then p else daemon_group)\<rparr>"

definition fork_child :: "process \<Rightarrow> nat \<Rightarrow> process" where
  "fork_child parent p = \<lparr>pid = p, pgid = pgid parent\<rparr>"

inductive descendant :: "process \<Rightarrow> process \<Rightarrow> bool" for leader :: process where
  descendant_self: "descendant leader leader"
| descendant_fork: "descendant leader q \<Longrightarrow> descendant leader (fork_child q p)"

definition kill_group :: "nat \<Rightarrow> process list \<Rightarrow> process list option" where
  "kill_group g ps = (if \<exists>q \<in> set ps. pgid q = g then Some (filter (\<lambda>q. pgid q \<noteq> g) ps) else None)"

definition kill_process :: "nat \<Rightarrow> process list \<Rightarrow> process list" where
  "kill_process p ps = filter (\<lambda>q. pid q \<noteq> p) ps"

definition exec_Cancel :: "process option \<Rightarrow> process list \<Rightarrow> string + process list" where
  "exec_Cancel proc ps =
     (case proc of
        None \<Rightarrow> Inl ''execpg: process not started''
      | Some child \<Rightarrow>
          (case kill_group (pid child) ps of
             Some ps' \<Rightarrow> Inr ps'
           | None \<Rightarrow> Inr (kill_process (pid child) ps)))"

lemma descendant_group: "descendant leader q \<Longrightarrow> pgid q = pgid leader"
  by (induction rule: descendant.induct) (simp_all add: fork_child_def)

section \<open>A concrete machine\<close>

text \<open>
  For examples: the world is a list of files, every command succeeds and prints one line, every
  directory holds one entry, and the clock stands still.
\<close>

definition demo_os :: "(string \<times> string) list os" where
  "demo_os =
     \<lparr>os_Getenv = (\<lambda>w k. []), os_Environ = (\<lambda>w. [''PATH=/bin'']), os_Stat_ok = (\<lambda>w p. p \<in> fst ` set w),
      os_ReadFile = (\<lambda>w p. map_of w p), os_ReadNoFollow = (\<lambda>w p. map_of w p),
      os_ReadDir = (\<lambda>w d. Some [(''plex'', True), (''README.md'', False)]),
      os_Setenv = (\<lambda>k v w. (True, w)), os_MkdirAll = (\<lambda>d w. (True, w)),
      os_WriteFile = (\<lambda>p t w. (True, (p, t) # w)),
      os_CreateTemp = (\<lambda>d pat w. (Some (d @ ''/'' @ pat), w)), os_Remove = (\<lambda>p w. filter (\<lambda>f. fst f \<noteq> p) w),
      os_Exec = (\<lambda>c w. (\<lparr>res_Stdout = ''cafe01'', res_Stderr = [], res_Combined = ''cafe01'', res_Err = None\<rparr>, w)),
      os_Now = (\<lambda>w. (1000, w))\<rparr>"

definition demo_machine :: "(string \<times> string) list \<Rightarrow> (string \<times> string) list machine" where
  "demo_machine files = \<lparr>world = files, ran = []\<rparr>"

section \<open>Properties\<close>

text \<open>
  Cancelling a command started through \<^verbatim>\<open>execpg\<close> leaves no process of its tree alive: neither
  the child nor anything it or its descendants forked survives, while every process outside its
  group does.
\<close>

theorem cancel_kills_tree:
  assumes "child = start_child daemon_group p (CommandContext name args)"
    and "child \<in> set ps" and "exec_Cancel (Some child) ps = Inr ps'"
  shows "(descendant child q \<longrightarrow> q \<notin> set ps') \<and> (q \<in> set ps \<and> pgid q \<noteq> p \<longrightarrow> q \<in> set ps')"
proof -
  have child: "pid child = p" "pgid child = p"
    using assms(1) by (simp_all add: start_child_def)
  then have "kill_group (pid child) ps = Some (filter (\<lambda>q. pgid q \<noteq> p) ps)"
    using assms(2) by (auto simp: kill_group_def)
  then have "ps' = filter (\<lambda>q. pgid q \<noteq> p) ps" using assms(3) by (simp add: exec_Cancel_def)
  then show ?thesis using descendant_group [of child q] child by auto
qed

theorem cancel_kills_tree_witness:
  "let git = start_child 1 7 (CommandContext ''git'' [''fetch'']); ssh = fork_child git 8;
       daemon = \<lparr>pid = 1, pgid = 1\<rparr> in
   exec_Cancel (Some git) [daemon, git, ssh] = Inr [daemon]
   \<and> ssh \<notin> set [daemon] \<and> daemon \<in> set [daemon]"
proof -
  let ?git = "start_child 1 7 (CommandContext ''git'' [''fetch''])" and ?daemon = "\<lparr>pid = 1, pgid = 1\<rparr>"
  let ?ssh = "fork_child ?git 8"
  have c: "exec_Cancel (Some ?git) [?daemon, ?git, ?ssh] = Inr [?daemon]"
    by (simp add: exec_Cancel_def kill_group_def start_child_def fork_child_def)
  have "descendant ?git ?ssh" by (intro descendant_fork descendant_self)
  then show ?thesis
    using cancel_kills_tree [OF refl _ c, of ?ssh] cancel_kills_tree [OF refl _ c, of ?daemon] c
    by (simp add: Let_def)
qed

end
