(* ===== verification/Crypto.thy ===== *)
theory Crypto
  imports GoStrings
begin

text \<open>
  \<^verbatim>\<open>src/internal/crypto/crypto.go\<close>: secrets at rest. Base64 (the standard alphabet with padding,
  and the URL alphabet without it for the generated dashboard token) is spelled out. AES-GCM and
  HKDF are the library's: the cipher is an argument \<open>aead\<close> whose documented law, that opening
  accepts exactly what sealing produced, is the hypothesis \<open>aead_laws\<close>.
\<close>

section \<open>Base64\<close>

definition std_alphabet :: string where
  "std_alphabet = ''ABCDEFGHIJKLMNOPQRSTUVWXYZabcdefghijklmnopqrstuvwxyz0123456789+/''"

definition url_alphabet :: string where
  "url_alphabet = ''ABCDEFGHIJKLMNOPQRSTUVWXYZabcdefghijklmnopqrstuvwxyz0123456789-_''"

definition b64_val :: "char \<Rightarrow> nat option" where
  "b64_val c = (if c \<in> set std_alphabet then Some (length (takeWhile (\<lambda>x. x \<noteq> c) std_alphabet)) else None)"

definition six_bits :: "string \<Rightarrow> nat \<Rightarrow> char" where
  "six_bits alphabet n = alphabet ! (n mod 64)"

definition enc3 :: "string \<Rightarrow> nat \<Rightarrow> nat \<Rightarrow> nat \<Rightarrow> string" where
  "enc3 al a b c = [six_bits al (a div 4), six_bits al (16 * (a mod 4) + b div 16),
                    six_bits al (4 * (b mod 16) + c div 64), six_bits al c]"

fun b64_encode :: "string \<Rightarrow> bool \<Rightarrow> string \<Rightarrow> string" where
  "b64_encode al pad [] = []"
| "b64_encode al pad [a] = take 2 (enc3 al (byte a) 0 0) @ (if pad then ''=='' else [])"
| "b64_encode al pad [a, b] = take 3 (enc3 al (byte a) (byte b) 0) @ (if pad then ''='' else [])"
| "b64_encode al pad (a # b # c # s) = enc3 al (byte a) (byte b) (byte c) @ b64_encode al pad s"

definition StdEncode :: "string \<Rightarrow> string" where
  "StdEncode s = b64_encode std_alphabet True s"

definition RawURLEncode :: "string \<Rightarrow> string" where
  "RawURLEncode s = b64_encode url_alphabet False s"

definition dec2 :: "nat \<Rightarrow> nat \<Rightarrow> char" where "dec2 p q = char_of (4 * p + q div 16)"
definition dec3 :: "nat \<Rightarrow> nat \<Rightarrow> char" where "dec3 q r = char_of (16 * (q mod 16) + r div 4)"
definition dec4 :: "nat \<Rightarrow> nat \<Rightarrow> char" where "dec4 r s = char_of (64 * (r mod 4) + s)"

fun b64_quads :: "string \<Rightarrow> string option" where
  "b64_quads [] = Some []"
| "b64_quads (a # b # c # d # s) =
     (case (b64_val a, b64_val b) of
        (Some p, Some q) \<Rightarrow>
          (if c = CHR ''='' then (if d = CHR ''='' \<and> s = [] then Some [dec2 p q] else None)
           else case b64_val c of
             None \<Rightarrow> None
           | Some r \<Rightarrow>
               (if d = CHR ''='' then (if s = [] then Some [dec2 p q, dec3 q r] else None)
                else case b64_val d of
                  None \<Rightarrow> None
                | Some t \<Rightarrow> map_option (\<lambda>u. dec2 p q # dec3 q r # dec4 r t # u) (b64_quads s)))
      | _ \<Rightarrow> None)"
| "b64_quads _ = None"

text \<open>The decoder ignores carriage returns and line feeds.\<close>

definition StdDecode :: "string \<Rightarrow> string option" where
  "StdDecode s = b64_quads (filter (\<lambda>c. byte c \<noteq> 10 \<and> byte c \<noteq> 13) s)"

lemma six_bits_val [simp]: "n < 64 \<Longrightarrow> b64_val (six_bits std_alphabet n) = Some n"
proof -
  have "list_all (\<lambda>n. b64_val (six_bits std_alphabet n) = Some n) [0..<64]" by code_simp
  then show "n < 64 \<Longrightarrow> b64_val (six_bits std_alphabet n) = Some n" by (simp add: list_all_iff)
qed

lemma six_bits_char:
  "six_bits std_alphabet n \<noteq> CHR ''='' \<and> byte (six_bits std_alphabet n) \<noteq> 10 \<and> byte (six_bits std_alphabet n) \<noteq> 13"
proof -
  have "list_all (\<lambda>c. c \<noteq> CHR ''='' \<and> byte c \<noteq> 10 \<and> byte c \<noteq> 13) std_alphabet" by code_simp
  moreover have "length std_alphabet = 64" by code_simp
  ultimately show ?thesis by (simp add: six_bits_def list_all_length)
qed

lemma six_bits_mod: "six_bits al (n mod 64) = six_bits al n"
  by (simp add: six_bits_def)

lemma byte_parts:
  "byte a div 4 < 64" "16 * (byte a mod 4) + byte b div 16 < 64" "4 * (byte b mod 16) + byte c div 64 < 64"
proof -
  have "byte a < 256" "byte b < 256" "byte c < 256" by simp_all
  then show "byte a div 4 < 64" "16 * (byte a mod 4) + byte b div 16 < 64" "4 * (byte b mod 16) + byte c div 64 < 64"
    by linarith+
qed

lemma dec2_enc: "n < 16 \<Longrightarrow> dec2 (byte a div 4) (16 * (byte a mod 4) + n) = a"
  by (simp add: dec2_def byte_def)

lemma dec3_enc: "n < 4 \<Longrightarrow> m < 4 \<Longrightarrow> dec3 (16 * m + byte b div 16) (4 * (byte b mod 16) + n) = b"
proof -
  assume n: "n < 4" and m: "m < 4"
  have "byte b div 16 < 16" using byte_less_256 [of b] by linarith
  then have "(16 * m + byte b div 16) mod 16 = byte b div 16" by simp
  moreover have "(4 * (byte b mod 16) + n) div 4 = byte b mod 16" using n by simp
  moreover have "16 * (byte b div 16) + byte b mod 16 = byte b" by simp
  ultimately show ?thesis by (simp add: dec3_def byte_def)
qed

lemma dec4_enc: "dec4 (4 * m + byte c div 64) (byte c mod 64) = c"
proof -
  have "byte c div 64 < 4" using byte_less_256 [of c] by linarith
  then have "(4 * m + byte c div 64) mod 4 = byte c div 64" by simp
  then show ?thesis by (simp add: dec4_def byte_def)
qed

lemma b64_quads_encode: "b64_quads (b64_encode std_alphabet True s) = Some s"
proof (induction "std_alphabet" True s rule: b64_encode.induct)
  case (2 a)
  then show ?case
    using byte_parts(1) [of a] byte_parts(2) [of a "CHR 0x00"] dec2_enc [of 0 a]
    by (simp add: enc3_def byte_def)
next
  case (3 a b)
  have "byte b div 16 < 16" using byte_less_256 [of b] by linarith
  then show ?case
    using byte_parts(1) [of a] byte_parts(2) [of a b] byte_parts(3) [of b "CHR 0x00"] six_bits_char
      dec2_enc [of "byte b div 16" a] dec3_enc [of 0 "byte a mod 4" b]
    by (simp add: enc3_def byte_def)
next
  case (4 a b c s)
  have "byte b div 16 < 16" "byte c div 64 < 4" using byte_less_256 [of b] byte_less_256 [of c] by linarith+
  moreover have "six_bits std_alphabet (byte c) = six_bits std_alphabet (byte c mod 64)"
    by (simp add: six_bits_mod)
  ultimately show ?case
    using 4 byte_parts(1) [of a] byte_parts(2) [of a b] byte_parts(3) [of b c] six_bits_char
    by (simp add: enc3_def dec2_enc dec3_enc dec4_enc)
qed simp

lemma b64_encode_bytes: "c \<in> set (b64_encode std_alphabet True s) \<Longrightarrow> byte c \<noteq> 10 \<and> byte c \<noteq> 13"
proof (induction "std_alphabet" True s rule: b64_encode.induct)
  case (2 a)
  then show ?case using six_bits_char by (auto simp: enc3_def byte_def)
next
  case (3 a b)
  then show ?case using six_bits_char by (auto simp: enc3_def byte_def)
next
  case (4 a b c s)
  then show ?case using six_bits_char by (auto simp: enc3_def)
qed simp

lemma StdDecode_StdEncode: "StdDecode (StdEncode s) = Some s"
proof -
  have "filter (\<lambda>c. byte c \<noteq> 10 \<and> byte c \<noteq> 13) (b64_encode std_alphabet True s) = b64_encode std_alphabet True s"
    using b64_encode_bytes by (intro filter_True) blast
  then show ?thesis by (simp add: StdDecode_def StdEncode_def b64_quads_encode)
qed

interpretation base64: codec "\<lambda>_. True" StdEncode StdDecode
  by unfold_locales (rule StdDecode_StdEncode)

section \<open>AES-256-GCM\<close>

record aead =
  gcm_Seal :: "string \<Rightarrow> string \<Rightarrow> string \<Rightarrow> string"
  gcm_Open :: "string \<Rightarrow> string \<Rightarrow> string \<Rightarrow> string option"

definition NonceSize :: nat where
  "NonceSize = 12"

text \<open>
  The documented law of an authenticated cipher: under a key and a nonce, a text opens to \<open>p\<close>
  exactly when it is what sealing \<open>p\<close> gives.
\<close>

definition aead_laws :: "aead \<Rightarrow> bool" where
  "aead_laws A \<longleftrightarrow> (\<forall>k n c p. gcm_Open A k n c = Some p \<longleftrightarrow> c = gcm_Seal A k n p)"

text \<open>\<^verbatim>\<open>aes.NewCipher\<close> accepts keys of 16, 24 or 32 bytes; \<^verbatim>\<open>NewGCM\<close> accepts every AES cipher.\<close>

definition aes_NewCipher_ok :: "string \<Rightarrow> bool" where
  "aes_NewCipher_ok key \<longleftrightarrow> length key \<in> {16, 24, 32}"

text \<open>\<open>rnd\<close> is what the random source delivers: \<open>NonceSize\<close> bytes, or \<open>None\<close> when it fails.\<close>

definition Encrypt :: "aead \<Rightarrow> string option \<Rightarrow> string \<Rightarrow> string \<Rightarrow> string + string" where
  "Encrypt A rnd key plaintext =
     (if \<not> aes_NewCipher_ok key then Inl ''new cipher''
      else case rnd of
        None \<Rightarrow> Inl ''nonce''
      | Some nonce \<Rightarrow> Inr (StdEncode (nonce @ gcm_Seal A key nonce plaintext)))"

definition Decrypt :: "aead \<Rightarrow> string \<Rightarrow> string \<Rightarrow> string + string" where
  "Decrypt A key ciphertext =
     (case StdDecode ciphertext of
        None \<Rightarrow> Inl ''base64 decode''
      | Some data \<Rightarrow>
          if \<not> aes_NewCipher_ok key then Inl ''new cipher''
          else if length data < NonceSize then Inl ''ciphertext too short''
          else (case gcm_Open A key (take NonceSize data) (drop NonceSize data) of
                  None \<Rightarrow> Inl ''decrypt''
                | Some plain \<Rightarrow> Inr plain))"

text \<open>\<open>hkdf secret info n\<close> is the first \<open>n\<close> bytes of the HKDF-SHA256 stream without salt.\<close>

definition DeriveKey :: "(string \<Rightarrow> string \<Rightarrow> nat \<Rightarrow> string option) \<Rightarrow> string \<Rightarrow> string + string" where
  "DeriveKey hkdf secret = (case hkdf secret ''stackd-v1'' 32 of None \<Rightarrow> Inl ''derive key'' | Some key \<Rightarrow> Inr key)"

lemma Decrypt_Inr:
  "Decrypt A key c = Inr p \<longleftrightarrow> aes_NewCipher_ok key \<and>
     (\<exists>data. StdDecode c = Some data \<and> NonceSize \<le> length data
        \<and> gcm_Open A key (take NonceSize data) (drop NonceSize data) = Some p)"
  by (auto simp: Decrypt_def split: option.splits if_splits)

lemma Decrypt_of_Encrypt:
  "aead_laws A \<Longrightarrow> Encrypt A (Some nonce) key p = Inr c \<Longrightarrow> length nonce = NonceSize \<Longrightarrow> Decrypt A key c = Inr p"
  by (auto simp: Encrypt_def Decrypt_Inr StdDecode_StdEncode aead_laws_def split: if_splits)

lemma StdEncode_empty: "StdEncode s = [] \<longleftrightarrow> s = []"
  using StdDecode_StdEncode [of s] by (auto simp: StdDecode_def StdEncode_def)

definition demo_aead :: aead where
  "demo_aead = \<lparr>gcm_Seal = (\<lambda>k n p. p @ ''tag''),
     gcm_Open = (\<lambda>k n c. if HasSuffix c ''tag'' then Some (take (length c - 3) c) else None)\<rparr>"

lemma demo_aead_laws: "aead_laws demo_aead"
  by (auto simp: aead_laws_def demo_aead_def HasSuffix_def suffix_def split: if_splits)

text \<open>
  C27. What \<^verbatim>\<open>Encrypt\<close> returns decrypts, with the same key, to the text it was given: no secret
  stored through it (tokens, private keys, the Infisical token) is lost.
\<close>

theorem Decrypt_Encrypt:
  assumes "aead_laws A" and "Encrypt A rnd key plaintext = Inr c"
    and "\<And>nonce. rnd = Some nonce \<Longrightarrow> length nonce = NonceSize"
  shows "Decrypt A key c = Inr plaintext"
  using assms Decrypt_of_Encrypt [OF assms(1)] by (cases rnd) (auto simp: Encrypt_def split: if_splits)

theorem Decrypt_Encrypt_witness:
  "Decrypt demo_aead (replicate 32 (CHR ''k'')) (StdEncode (''0123456789ab'' @ ''ghp_tokentag'')) = Inr ''ghp_token''"
proof (rule Decrypt_Encrypt [OF demo_aead_laws, where rnd = "Some ''0123456789ab''"])
  show "Encrypt demo_aead (Some ''0123456789ab'') (replicate 32 (CHR ''k'')) ''ghp_token''
      = Inr (StdEncode (''0123456789ab'' @ ''ghp_tokentag''))"
    by (simp add: Encrypt_def aes_NewCipher_ok_def demo_aead_def)
qed (simp add: NonceSize_def)

text \<open>
  A text that decrypts is authentic: its decoded bytes are the encryption of the result under
  some nonce and this key. A stored secret that was altered, or encrypted under another key, is
  reported as an error and never yields a different plaintext.
\<close>

theorem Decrypt_authentic:
  assumes "aead_laws A" and "Decrypt A key c = Inr p"
  shows "\<exists>nonce c'. length nonce = NonceSize \<and> Encrypt A (Some nonce) key p = Inr c' \<and> StdDecode c = StdDecode c'"
proof -
  obtain data where data: "StdDecode c = Some data" "NonceSize \<le> length data" "aes_NewCipher_ok key"
      "gcm_Open A key (take NonceSize data) (drop NonceSize data) = Some p"
    using assms(2) by (auto simp: Decrypt_Inr)
  then have "data = take NonceSize data @ gcm_Seal A key (take NonceSize data) p"
    using assms(1) by (metis aead_laws_def append_take_drop_id)
  then have "Encrypt A (Some (take NonceSize data)) key p = Inr (StdEncode data)"
    using data(3) by (simp add: Encrypt_def)
  moreover have "StdDecode c = StdDecode (StdEncode data)"
    using data(1) by (simp add: StdDecode_StdEncode)
  moreover have "length (take NonceSize data) = NonceSize" using data(2) by simp
  ultimately show ?thesis by blast
qed

theorem Decrypt_authentic_witness:
  "\<exists>nonce c'. length nonce = NonceSize
     \<and> Encrypt demo_aead (Some nonce) (replicate 16 (CHR ''k'')) ''pw'' = Inr c'
     \<and> StdDecode (StdEncode ''0123456789abpwtag'') = StdDecode c'"
proof (rule Decrypt_authentic [OF demo_aead_laws])
  show "Decrypt demo_aead (replicate 16 (CHR ''k'')) (StdEncode ''0123456789abpwtag'') = Inr ''pw''"
    by (simp add: Decrypt_Inr StdDecode_StdEncode aes_NewCipher_ok_def NonceSize_def demo_aead_def HasSuffix_def
        suffix_def)
qed

end
