(* ===== verification/Git.thy ===== *)
theory Git
  imports Host GoUrl Crypto
begin

text \<open>
  \<^verbatim>\<open>src/internal/git/git.go\<close>: credential redaction, the validators of repository names, refs and
  URLs, and the git commands of a sync with their environment. The git process itself is the
  machine's: what the model fixes is every command line and every environment the daemon hands to
  it. Error values carry the text of the format string without its arguments, except where the
  arguments matter (the command's error and its redacted output).
\<close>

section \<open>Redaction\<close>

text \<open>One match of \<^verbatim>\<open>://[^/@\s]*@\<close> at the start of a string: the userinfo and what follows the \<^verbatim>\<open>@\<close>.\<close>

definition userinfo_byte :: "char \<Rightarrow> bool" where
  "userinfo_byte c \<longleftrightarrow> c \<noteq> CHR ''/'' \<and> c \<noteq> CHR ''@'' \<and> \<not> re_space c"

definition credential_match :: "string \<Rightarrow> (string \<times> string) option" where
  "credential_match s =
     (if HasPrefix s ''://'' then
        (let u = takeWhile userinfo_byte (drop 3 s); r = dropWhile userinfo_byte (drop 3 s) in
         case r of [] \<Rightarrow> None | c # rest \<Rightarrow> if c = CHR ''@'' then Some (u, rest) else None)
      else None)"

lemma credential_match_Some:
  "credential_match s = Some (u, rest) \<longleftrightarrow> s = ''://'' @ u @ ''@'' @ rest \<and> list_all userinfo_byte u"
proof
  assume "credential_match s = Some (u, rest)"
  then have s: "HasPrefix s ''://''" and u: "u = takeWhile userinfo_byte (drop 3 s)"
    and r: "dropWhile userinfo_byte (drop 3 s) = CHR ''@'' # rest"
    by (auto simp: credential_match_def Let_def split: if_splits list.splits)
  have "drop 3 s = u @ CHR ''@'' # rest" using takeWhile_dropWhile_id [of userinfo_byte "drop 3 s"] u r by simp
  moreover obtain t where "s = ''://'' @ t" using s by (auto simp: HasPrefix_append)
  moreover have "list_all userinfo_byte u" using u by (auto simp: list_all_iff dest: set_takeWhileD)
  ultimately show "s = ''://'' @ u @ ''@'' @ rest \<and> list_all userinfo_byte u" by simp
next
  assume a: "s = ''://'' @ u @ ''@'' @ rest \<and> list_all userinfo_byte u"
  have at: "\<not> userinfo_byte (CHR ''@'')" by (simp add: userinfo_byte_def)
  have "takeWhile userinfo_byte (u @ ''@'' @ rest) = u" "dropWhile userinfo_byte (u @ ''@'' @ rest) = ''@'' @ rest"
    using a at by (auto simp: list_all_iff takeWhile_append dropWhile_append)
  then show "credential_match s = Some (u, rest)"
    using a by (simp add: credential_match_def HasPrefix_def Let_def)
qed

function Redact :: "string \<Rightarrow> string" where
  "Redact s =
     (case credential_match s of
        Some (_, rest) \<Rightarrow> ''://***@'' @ Redact rest
      | None \<Rightarrow> (case s of [] \<Rightarrow> [] | c # cs \<Rightarrow> c # Redact cs))"
  by pat_completeness auto
termination
  by (relation "measure length") (auto simp: credential_match_Some)

declare Redact.simps [simp del]

text \<open>Every credential match of a string reads \<^verbatim>\<open>***\<close>.\<close>

fun redacted :: "string \<Rightarrow> bool" where
  "redacted [] = True"
| "redacted (c # cs) = ((case credential_match (c # cs) of Some (u, _) \<Rightarrow> u = ''***'' | None \<Rightarrow> True) \<and> redacted cs)"

lemma credential_match_Nil [simp]: "credential_match [] = None"
  by (simp add: credential_match_def HasPrefix_def)

lemma Redact_Nil [simp]: "Redact [] = []"
  by (subst Redact.simps) simp

lemma Redact_match: "list_all userinfo_byte u \<Longrightarrow> Redact (''://'' @ u @ ''@'' @ rest) = ''://***@'' @ Redact rest"
proof -
  assume "list_all userinfo_byte u"
  then have "credential_match (''://'' @ u @ ''@'' @ rest) = Some (u, rest)" by (simp only: credential_match_Some)
  then show ?thesis by (subst Redact.simps) simp
qed

lemma Redact_step: "credential_match (c # cs) = None \<Longrightarrow> Redact (c # cs) = c # Redact cs"
  by (subst Redact.simps) simp

text \<open>
  A match sees its string only up to the first byte after the userinfo, and redaction changes
  nothing before the first colon that starts a match.
\<close>

lemma userinfo_prefix_Redact:
  "takeWhile userinfo_byte (Redact s) = takeWhile userinfo_byte s
   \<and> take 1 (dropWhile userinfo_byte (Redact s)) = take 1 (dropWhile userinfo_byte s)"
proof (induction s rule: length_induct)
  case (1 s)
  show ?case
  proof (cases "credential_match s")
    case None
    then show ?thesis
      using 1 by (cases s) (simp_all add: Redact_step)
  next
    case (Some ur)
    obtain u rest where "ur = (u, rest)" by fastforce
    with Some have s: "s = ''://'' @ u @ ''@'' @ rest" and u: "list_all userinfo_byte u"
      by (simp_all add: credential_match_Some)
    have "userinfo_byte (CHR '':'')" "\<not> userinfo_byte (CHR ''/'')"
      by (simp_all add: userinfo_byte_def re_space_def byte_def)
    then show ?thesis using Redact_match [OF u, of rest] s by simp
  qed
qed

lemma Redact_slash: "Redact s = CHR ''/'' # r \<Longrightarrow> \<exists>t. s = CHR ''/'' # t \<and> r = Redact t"
  by (subst (asm) Redact.simps) (auto split: option.splits list.splits)

lemma userinfo_delims [simp]:
  "\<not> userinfo_byte (CHR ''/'')" "\<not> userinfo_byte (CHR ''@'')" "userinfo_byte (CHR '':'')"
  by (simp_all add: userinfo_byte_def re_space_def byte_def)

lemma dropWhile_Cons_not_all: "dropWhile P l = x # r \<Longrightarrow> \<not> (\<forall>y\<in>set l. P y)"
  by (metis dropWhile_eq_Nil_conv list.distinct(1))

lemma credential_match_colon:
  "credential_match (c # s) = Some (u, rest) \<longleftrightarrow> c = CHR '':'' \<and> (\<exists>t. s = ''//'' @ t
     \<and> u = takeWhile userinfo_byte t \<and> dropWhile userinfo_byte t = CHR ''@'' # rest)"
  by (cases s; cases "tl s")
    (auto simp: credential_match_def HasPrefix_def Let_def dest: dropWhile_Cons_not_all split: list.splits)

lemma Redact_redacted: "redacted (Redact s)"
proof (induction s rule: length_induct)
  case (1 s)
  show ?case
  proof (cases "credential_match s")
    case (Some ur)
    obtain u rest where "ur = (u, rest)" by fastforce
    with Some have s: "s = ''://'' @ u @ ''@'' @ rest" and u: "list_all userinfo_byte u"
      by (simp_all add: credential_match_Some)
    have star: "userinfo_byte (CHR ''*'')" by (simp add: userinfo_byte_def re_space_def byte_def)
    have "redacted (Redact rest)" using 1 s by simp
    then have "redacted (''://***@'' @ Redact rest)"
      using star by (auto simp: credential_match_colon split: option.splits)
    then show ?thesis using Redact_match [OF u, of rest] s by simp
  next
    case None
    show ?thesis
    proof (cases s)
      case Nil
      then show ?thesis by simp
    next
      case (Cons c cs)
      have "credential_match (c # Redact cs) = None"
      proof (rule ccontr)
        assume "credential_match (c # Redact cs) \<noteq> None"
        then obtain u rest where m: "credential_match (c # Redact cs) = Some (u, rest)" by fastforce
        then obtain t where t: "Redact cs = ''//'' @ t" "dropWhile userinfo_byte t = CHR ''@'' # rest"
          by (auto simp: credential_match_colon)
        then obtain t' where t': "cs = ''//'' @ t'" "t = Redact t'"
          using Redact_slash by (metis append_Cons append_Nil)
        have "take 1 (dropWhile userinfo_byte t') = ''@''"
          using userinfo_prefix_Redact [of t'] t t' by simp
        then obtain rest' where "dropWhile userinfo_byte t' = CHR ''@'' # rest'"
          by (cases "dropWhile userinfo_byte t'") auto
        then have "credential_match (c # cs) \<noteq> None"
          using m t' by (auto simp: credential_match_colon)
        with None Cons show False by simp
      qed
      then show ?thesis using 1 None Cons by (simp add: Redact_step)
    qed
  qed
qed

lemma redacted_append: "redacted (a @ b) \<Longrightarrow> redacted b"
  by (induction a) simp_all

lemma Redact_id: "redacted s \<Longrightarrow> Redact s = s"
proof (induction s rule: length_induct)
  case (1 s)
  show ?case
  proof (cases "credential_match s")
    case None
    with 1 show ?thesis by (cases s) (simp_all add: Redact_step)
  next
    case (Some ur)
    obtain u rest where ur: "ur = (u, rest)" by fastforce
    with Some have s: "s = ''://'' @ u @ ''@'' @ rest" and u: "list_all userinfo_byte u"
      by (simp_all add: credential_match_Some)
    have "u = ''***''" using 1 Some ur s by (cases s) simp_all
    moreover have "redacted rest" using "1.prems" redacted_append [of "''://'' @ u @ ''@''" rest] s by simp
    ultimately show ?thesis using 1 s Redact_match [OF u, of rest] by simp
  qed
qed

interpretation redaction: sanitizer redacted Redact
  by unfold_locales (rule Redact_redacted, rule Redact_id)

text \<open>A match never reaches into a credential that follows: the two are separated by a slash.\<close>

lemma credential_match_before:
  assumes "a \<noteq> []"
  shows "credential_match (a @ ''://'' @ x) = map_option (\<lambda>(u, r). (u, r @ ''://'' @ x)) (credential_match a)"
proof (cases "credential_match (a @ ''://'' @ x)")
  case None
  have "credential_match a = None"
  proof (rule ccontr)
    assume "credential_match a \<noteq> None"
    then obtain u r where "a = ''://'' @ u @ ''@'' @ r" "list_all userinfo_byte u"
      by (auto simp: credential_match_Some)
    then have "credential_match (a @ ''://'' @ x) = Some (u, r @ ''://'' @ x)"
      by (simp only: credential_match_Some append_assoc)
    with None show False by simp
  qed
  with None show ?thesis by simp
next
  case (Some ur)
  obtain u r where ur: "ur = (u, r)" by fastforce
  with Some have eq: "a @ ''://'' @ x = (''://'' @ u @ ''@'') @ r" and u: "list_all userinfo_byte u"
    by (simp_all add: credential_match_Some)
  have "\<exists>r'. a = ''://'' @ u @ ''@'' @ r'"
  proof (rule ccontr)
    assume no: "\<not> ?thesis"
    let ?P = "''://'' @ u @ ''@''"
    have "\<exists>w. a = ?P @ w \<or> a @ w = ?P \<and> ''://'' @ x = w @ r"
      using eq unfolding append_eq_append_conv2 by blast
    then obtain w where aw: "a @ w = ?P" and wr: "''://'' @ x = w @ r" using no by auto
    have "w \<noteq> []" using no aw by auto
    then have w: "?P = a @ w" "w @ r = ''://'' @ x" "w \<noteq> []" using aw wr by simp_all
    obtain w' where w': "w = CHR '':'' # w'" using w(2,3) by (cases w) auto
    have "last (a @ w) = last ?P" using w(1) by simp
    then have "last w = CHR ''@''" using w(3) by simp
    then obtain w'' where w'': "w' = CHR ''/'' # w''" using w(2) w' by (cases w') auto
    then have len: "length a + 2 + length w'' = length u + 4" using arg_cong [OF w(1), of length] w' by simp
    show False
    proof (cases "length a < 3")
      case True
      then consider "length a = 1" | "length a = 2" using assms by (cases a; cases "tl a") auto
      then show False using w(1) w' by cases (auto simp: length_Suc_conv numeral_2_eq_2)
    next
      case False
      then have "CHR ''/'' \<in> set (drop 3 (a @ w))" using w' w'' by simp
      then have "CHR ''/'' \<in> set (u @ ''@'')" unfolding w(1) [symmetric] by simp
      then show False using u by (auto simp: list_all_iff)
    qed
  qed
  then obtain r' where r': "a = ''://'' @ u @ ''@'' @ r'" by blast
  then have "credential_match a = Some (u, r')" using u by (simp only: credential_match_Some)
  moreover have "r = r' @ ''://'' @ x" using eq r' by simp
  ultimately show ?thesis using Some ur by simp
qed

lemma Redact_credential:
  assumes "list_all userinfo_byte u"
  shows "Redact (a @ ''://'' @ u @ ''@'' @ b) = Redact a @ ''://***@'' @ Redact b"
proof (induction a rule: length_induct)
  case (1 a)
  show ?case
  proof (cases "a = []")
    case True
    then show ?thesis using Redact_match [OF assms, of b] by simp
  next
    case False
    note before = credential_match_before [OF False, of "u @ ''@'' @ b"]
    show ?thesis
    proof (cases "credential_match a")
      case None
      obtain c cs where a: "a = c # cs" using False by (cases a) auto
      have "Redact (cs @ ''://'' @ u @ ''@'' @ b) = Redact cs @ ''://***@'' @ Redact b" using 1 a by simp
      then show ?thesis using None before a by (simp add: Redact_step)
    next
      case (Some vr)
      obtain v r where "vr = (v, r)" by fastforce
      with Some have a: "a = ''://'' @ v @ ''@'' @ r" and v: "list_all userinfo_byte v"
        by (simp_all add: credential_match_Some)
      have "Redact (r @ ''://'' @ u @ ''@'' @ b) = Redact r @ ''://***@'' @ Redact b" using 1 a by simp
      then show ?thesis
        using a Redact_match [OF v, of r] Redact_match [OF v, of "r @ ''://'' @ u @ ''@'' @ b"] by simp
    qed
  qed
qed

section \<open>Validation\<close>

definition repo_name_byte :: "char \<Rightarrow> bool" where
  "repo_name_byte c \<longleftrightarrow> is_alnum c \<or> c = CHR ''.'' \<or> c = CHR ''_'' \<or> c = CHR ''-''"

definition ValidateRepoName :: "string \<Rightarrow> string + unit" where
  "ValidateRepoName name =
     (if name = ''.'' \<or> name = ''..'' \<or> \<not> (name \<noteq> [] \<and> list_all repo_name_byte name)
      then Inl ''invalid repo name: must match [A-Za-z0-9._-] and not be . or ..'' else Inr ())"

definition ref_byte :: "char \<Rightarrow> bool" where
  "ref_byte c \<longleftrightarrow> repo_name_byte c \<or> c = CHR ''/''"

definition ValidateRef :: "string \<Rightarrow> string + unit" where
  "ValidateRef name =
     (if name = [] then Inl ''git ref must not be empty''
      else if HasPrefix name ''-'' then Inl ''git ref must not begin with -''
      else if \<not> (name \<noteq> [] \<and> list_all ref_byte name) then Inl ''invalid git ref: must match [A-Za-z0-9._/-]''
      else Inr ())"

text \<open>
  The expression \<^verbatim>\<open>^[^\s/@:]+@[^\s/:]+:.+$\<close>. Neither class contains the byte that follows its
  group, so each group is the longest run of its class.
\<close>

definition scp_user_byte :: "char \<Rightarrow> bool" where
  "scp_user_byte c \<longleftrightarrow> \<not> re_space c \<and> c \<noteq> CHR ''/'' \<and> c \<noteq> CHR ''@'' \<and> c \<noteq> CHR '':''"

definition scp_host_byte :: "char \<Rightarrow> bool" where
  "scp_host_byte c \<longleftrightarrow> \<not> re_space c \<and> c \<noteq> CHR ''/'' \<and> c \<noteq> CHR '':''"

definition scpLike :: "string \<Rightarrow> bool" where
  "scpLike raw =
     (takeWhile scp_user_byte raw \<noteq> [] \<and>
      (case dropWhile scp_user_byte raw of
         [] \<Rightarrow> False
       | c # r \<Rightarrow> c = CHR ''@'' \<and> takeWhile scp_host_byte r \<noteq> [] \<and>
           (case dropWhile scp_host_byte r of
              [] \<Rightarrow> False
            | d # path \<Rightarrow> d = CHR '':'' \<and> path \<noteq> [] \<and> newline \<notin> set path)))"

definition forbidden_transports :: "string list" where
  "forbidden_transports = [''ext::'', ''file::'', ''fd::'']"

definition allowed_schemes :: "string list" where
  "allowed_schemes = [''https'', ''http'', ''ssh'', ''git'']"

definition scp_host :: "string \<Rightarrow> string" where
  "scp_host raw =
     (case Index raw ''@'' of
        None \<Rightarrow> raw
      | Some i \<Rightarrow> (let rest = drop (i + 1) raw in
          case Index rest '':'' of None \<Rightarrow> rest | Some j \<Rightarrow> take j rest))"

definition ValidateRepoURL :: "unicode_tables \<Rightarrow> (string \<Rightarrow> bool) \<Rightarrow> string \<Rightarrow> string + unit" where
  "ValidateRepoURL ut ip6 raw0 =
     (let raw = TrimSpace raw0 in
      if raw = [] then Inl ''empty repo URL''
      else if HasPrefix raw ''-'' then Inl ''repo URL must not begin with -''
      else if list_ex (HasPrefix (ToLower ut raw)) forbidden_transports then Inl ''repo URL uses forbidden transport''
      else if \<not> Contains raw ''://'' then
        (if scpLike raw then
           (if HasPrefix (scp_host raw) ''-'' then Inl ''repo URL host must not begin with -'' else Inr ())
         else Inl ''repo URL is not a valid git remote'')
      else case url_Parse ut ip6 raw of
        None \<Rightarrow> Inl ''parse repo URL''
      | Some u \<Rightarrow>
          if HasPrefix (url_Host u) ''-'' then Inl ''repo URL host must not begin with -''
          else if url_Scheme u \<in> set allowed_schemes then Inr ()
          else Inl ''unsupported repo URL scheme'')"

lemma ValidateRepoName_Inr:
  "ValidateRepoName n = Inr () \<longleftrightarrow> n \<noteq> ''.'' \<and> n \<noteq> ''..'' \<and> n \<noteq> [] \<and> list_all repo_name_byte n"
  by (auto simp: ValidateRepoName_def)

lemma ValidateRef_Inr:
  "ValidateRef n = Inr () \<longleftrightarrow> n \<noteq> [] \<and> hd n \<noteq> CHR ''-'' \<and> list_all ref_byte n"
  by (cases n) (auto simp: ValidateRef_def HasPrefix_def)

lemma slash_not_repo_name_byte [simp]: "\<not> repo_name_byte (CHR ''/'')"
  by (simp add: repo_name_byte_def byte_class_defs byte_def)

lemma ValidateRepoName_file_name: "ValidateRepoName n = Inr () \<Longrightarrow> file_name n"
  by (auto simp: ValidateRepoName_Inr file_name_def list_all_iff)

section \<open>Git commands\<close>

record AuthOpts =
  ao_Type :: string
  ao_SSHKeyPath :: string
  ao_PAT :: string

definition gitAllowProtocol :: string where
  "gitAllowProtocol = ''GIT_ALLOW_PROTOCOL=ssh:https:git:http''"

definition knownHostsFile :: "'w os \<Rightarrow> ('w, 'z) machine_scheme \<Rightarrow> string \<times> ('w, 'z) machine_scheme" where
  "knownHostsFile os m =
     (let dir0 = os_Getenv os (world m) ''SSH_KNOWN_HOSTS_DIR'';
          dir = (if dir0 = [] then ''/tmp/stackd-ssh'' else dir0);
          (_, m1) = make_dir os dir m
      in (filepath_Join dir ''known_hosts'', m1))"

definition sshCommandEnv :: "'w os \<Rightarrow> string \<Rightarrow> ('w, 'z) machine_scheme \<Rightarrow> string \<times> ('w, 'z) machine_scheme" where
  "sshCommandEnv os keyPath m =
     (let (kh, m1) = knownHostsFile os m in
      (''GIT_SSH_COMMAND=ssh -i '' @ keyPath
       @ '' -o StrictHostKeyChecking=accept-new''
       @ '' -o UserKnownHostsFile='' @ kh
       @ '' -o BatchMode=yes'' @ '' -o ConnectTimeout=10''
       @ '' -o ServerAliveInterval=10'' @ '' -o ServerAliveCountMax=3'', m1))"

definition pat_env :: "string \<Rightarrow> string list" where
  "pat_env pat =
     [''GIT_CONFIG_COUNT=1'', ''GIT_CONFIG_KEY_0=http.extraHeader'',
      ''GIT_CONFIG_VALUE_0=Authorization: Basic '' @ StdEncode (pat @ '':'')]"

definition applyGitEnv ::
    "'w os \<Rightarrow> AuthOpts \<Rightarrow> command \<Rightarrow> ('w, 'z) machine_scheme \<Rightarrow> command \<times> ('w, 'z) machine_scheme" where
  "applyGitEnv os opts c m =
     (let env0 = os_Environ os (world m) @ [gitAllowProtocol];
          (env1, m1) = (if ao_Type opts = ''ssh'' \<and> ao_SSHKeyPath opts \<noteq> []
                        then (let (e, m') = sshCommandEnv os (ao_SSHKeyPath opts) m in (env0 @ [e], m'))
                        else (env0, m));
          env2 = (if ao_Type opts = ''pat'' \<and> ao_PAT opts \<noteq> [] then env1 @ pat_env (ao_PAT opts) else env1)
      in (c\<lparr>cmd_Env := Some env2\<rparr>, m1))"

text \<open>Running one git command with the environment and turning its failure into an error.\<close>

definition git_command ::
    "'w os \<Rightarrow> AuthOpts \<Rightarrow> string \<Rightarrow> string list \<Rightarrow> ('w, 'z) machine_scheme \<Rightarrow> (string + unit) \<times> ('w, 'z) machine_scheme" where
  "git_command os opts what args m =
     (let (c, m1) = applyGitEnv os opts (CommandContext ''git'' args) m;
          (r, m2) = run_command os c m1
      in (case res_Err r of
            Some e \<Rightarrow> Inl (what @ '': '' @ exec_error_text e @ newline # ''output: '' @ Redact (res_Combined r))
          | None \<Rightarrow> Inr (), m2))"

definition clone_args :: "string \<Rightarrow> string \<Rightarrow> string \<Rightarrow> string list" where
  "clone_args repoURL destDir remote = [''clone'', ''--origin'', remote, ''--'', repoURL, destDir]"

definition cloneRepo ::
    "'w os \<Rightarrow> string \<Rightarrow> string \<Rightarrow> string \<Rightarrow> AuthOpts \<Rightarrow> ('w, 'z) machine_scheme \<Rightarrow> (string + unit) \<times> ('w, 'z) machine_scheme" where
  "cloneRepo os repoURL destDir remote opts m = git_command os opts ''git clone'' (clone_args repoURL destDir remote) m"

definition fetch_args :: "string \<Rightarrow> string \<Rightarrow> string list" where
  "fetch_args repoDir remote = [''-C'', repoDir, ''fetch'', ''--prune'', ''--'', remote]"

definition reset_ref :: "string \<Rightarrow> string \<Rightarrow> string" where
  "reset_ref remote branch = (if branch \<noteq> [] \<and> branch \<noteq> ''HEAD'' then remote @ ''/'' @ branch else ''FETCH_HEAD'')"

definition reset_args :: "string \<Rightarrow> string \<Rightarrow> string list" where
  "reset_args repoDir ref = [''-C'', repoDir, ''reset'', ''--hard'', ''--end-of-options'', ref]"

definition fetchReset ::
    "'w os \<Rightarrow> string \<Rightarrow> string \<Rightarrow> string \<Rightarrow> AuthOpts \<Rightarrow> ('w, 'z) machine_scheme \<Rightarrow> (string + unit) \<times> ('w, 'z) machine_scheme" where
  "fetchReset os repoDir remote branch opts m =
     (let (r1, m1) = git_command os opts ''git fetch'' (fetch_args repoDir remote) m in
      case r1 of
        Inl e \<Rightarrow> (Inl e, m1)
      | Inr _ \<Rightarrow> git_command os opts (''git reset --hard '' @ reset_ref remote branch)
                     (reset_args repoDir (reset_ref remote branch)) m1)"

definition SyncRepo ::
    "'w os \<Rightarrow> string \<Rightarrow> string \<Rightarrow> string \<Rightarrow> string \<Rightarrow> AuthOpts \<Rightarrow> ('w, 'z) machine_scheme
       \<Rightarrow> (string + unit) \<times> ('w, 'z) machine_scheme" where
  "SyncRepo os destDir repoURL remote0 branch opts m =
     (let remote = (if remote0 = [] then ''origin'' else remote0);
          gitDir = filepath_Join destDir ''.git'';
          (r1, m1) = (if \<not> os_Stat_ok os (world m) gitDir then cloneRepo os repoURL destDir remote opts m
                      else (Inr (), m))
      in case r1 of
           Inl e \<Rightarrow> (Inl e, m1)
         | Inr _ \<Rightarrow> fetchReset os destDir remote branch opts m1)"

definition HeadSHA :: "'w os \<Rightarrow> string \<Rightarrow> ('w, 'z) machine_scheme \<Rightarrow> (string + string) \<times> ('w, 'z) machine_scheme" where
  "HeadSHA os repoDir m =
     (let (r, m1) = run_command os (CommandContext ''git'' [''-C'', repoDir, ''rev-parse'', ''HEAD'']) m in
      (case res_Err r of
         None \<Rightarrow> Inr (TrimSpace (res_Stdout r))
       | Some (Exit_error e) \<Rightarrow>
           (if res_Stderr r \<noteq> []
            then Inl (''git rev-parse HEAD '' @ repoDir @ '': '' @ e @ '': '' @ TrimSpace (res_Stderr r))
            else Inl (''git rev-parse HEAD '' @ repoDir @ '': '' @ e))
       | Some (Other_error e) \<Rightarrow> Inl (''git rev-parse HEAD '' @ repoDir @ '': '' @ e), m1))"

section \<open>The commands of a sync\<close>

lemma applyGitEnv_frames [frame_simps]:
  "ran (snd (applyGitEnv os opts c m)) = ran m"
  "cmd_Name (fst (applyGitEnv os opts c m)) = cmd_Name c"
  "cmd_Args (fst (applyGitEnv os opts c m)) = cmd_Args c"
  by (simp_all add: applyGitEnv_def sshCommandEnv_def knownHostsFile_def Let_def split_def frame_simps)

lemma applyGitEnv_protocol:
  "\<exists>env. cmd_Env (fst (applyGitEnv os opts c m)) = Some env \<and> gitAllowProtocol \<in> set env"
  by (auto simp: applyGitEnv_def Let_def split_def)

text \<open>What every git command of the daemon looks like, whatever the credentials.\<close>

definition git_sandboxed :: "command \<Rightarrow> bool" where
  "git_sandboxed c \<longleftrightarrow> cmd_Name c = ''git'' \<and> (\<exists>env. cmd_Env c = Some env \<and> gitAllowProtocol \<in> set env)"

lemma git_command_ran:
  "\<exists>c. ran (snd (git_command os opts what args m)) = ran m @ [c] \<and> cmd_Args c = args \<and> git_sandboxed c"
proof -
  let ?c = "fst (applyGitEnv os opts (CommandContext ''git'' args) m)"
  have "ran (snd (git_command os opts what args m)) = ran m @ [?c]"
    by (simp add: git_command_def Let_def split_def frame_simps)
  then show ?thesis
    using applyGitEnv_protocol [of os opts "CommandContext ''git'' args" m]
    by (auto simp: git_sandboxed_def frame_simps)
qed

lemma git_command_more [frame_simps]: "machine.more (snd (git_command os opts what args m)) = machine.more m"
  by (simp add: git_command_def applyGitEnv_def sshCommandEnv_def knownHostsFile_def Let_def split_def frame_simps)

definition sync_argv :: "bool \<Rightarrow> string \<Rightarrow> string \<Rightarrow> string \<Rightarrow> string \<Rightarrow> string list list" where
  "sync_argv cloned destDir repoURL remote0 branch =
     (let remote = (if remote0 = [] then ''origin'' else remote0) in
      (if cloned then [] else [clone_args repoURL destDir remote])
      @ [fetch_args destDir remote, reset_args destDir (reset_ref remote branch)])"

lemma fetchReset_ran:
  "\<exists>cs. ran (snd (fetchReset os d remote branch opts m)) = ran m @ cs \<and> list_all git_sandboxed cs
     \<and> prefix (map cmd_Args cs) [fetch_args d remote, reset_args d (reset_ref remote branch)]
     \<and> (fst (fetchReset os d remote branch opts m) = Inr () \<longrightarrow>
          map cmd_Args cs = [fetch_args d remote, reset_args d (reset_ref remote branch)])"
proof -
  obtain r1 m1 where 1: "git_command os opts ''git fetch'' (fetch_args d remote) m = (r1, m1)" by fastforce
  obtain c1 where c1: "ran m1 = ran m @ [c1]" "cmd_Args c1 = fetch_args d remote" "git_sandboxed c1"
    using git_command_ran [of os opts "''git fetch''" "fetch_args d remote" m] 1 by auto
  show ?thesis
  proof (cases r1)
    case (Inl e)
    then show ?thesis using 1 c1 by (intro exI [of _ "[c1]"]) (simp add: fetchReset_def)
  next
    case (Inr u)
    let ?args = "reset_args d (reset_ref remote branch)" and ?what = "''git reset --hard '' @ reset_ref remote branch"
    obtain c2 where c2: "ran (snd (git_command os opts ?what ?args m1)) = ran m1 @ [c2]" "cmd_Args c2 = ?args" "git_sandboxed c2"
      using git_command_ran [of os opts ?what ?args m1] by auto
    then show ?thesis using 1 c1 Inr by (intro exI [of _ "[c1, c2]"]) (simp add: fetchReset_def)
  qed
qed

lemma SyncRepo_ran:
  "\<exists>cs. ran (snd (SyncRepo os d url remote branch opts m)) = ran m @ cs \<and> list_all git_sandboxed cs
     \<and> prefix (map cmd_Args cs) (sync_argv (os_Stat_ok os (world m) (filepath_Join d ''.git'')) d url remote branch)
     \<and> (fst (SyncRepo os d url remote branch opts m) = Inr () \<longrightarrow>
          map cmd_Args cs = sync_argv (os_Stat_ok os (world m) (filepath_Join d ''.git'')) d url remote branch)"
proof -
  let ?remote = "if remote = [] then ''origin'' else remote"
  show ?thesis
  proof (cases "os_Stat_ok os (world m) (filepath_Join d ''.git'')")
    case True
    then show ?thesis
      using fetchReset_ran [of os d ?remote branch opts m] by (simp add: SyncRepo_def sync_argv_def Let_def)
  next
    case False
    obtain r1 m1 where 1: "git_command os opts ''git clone'' (clone_args url d ?remote) m = (r1, m1)" by fastforce
    obtain c1 where c1: "ran m1 = ran m @ [c1]" "cmd_Args c1 = clone_args url d ?remote" "git_sandboxed c1"
      using git_command_ran [of os opts "''git clone''" "clone_args url d ?remote" m] 1 by auto
    show ?thesis
    proof (cases r1)
      case (Inl e)
      then show ?thesis
        using 1 c1 False by (intro exI [of _ "[c1]"]) (simp add: SyncRepo_def cloneRepo_def sync_argv_def Let_def)
    next
      case (Inr u)
      obtain cs where "ran (snd (fetchReset os d ?remote branch opts m1)) = ran m1 @ cs" "list_all git_sandboxed cs"
        "prefix (map cmd_Args cs) [fetch_args d ?remote, reset_args d (reset_ref ?remote branch)]"
        "fst (fetchReset os d ?remote branch opts m1) = Inr () \<longrightarrow>
           map cmd_Args cs = [fetch_args d ?remote, reset_args d (reset_ref ?remote branch)]"
        using fetchReset_ran [of os d ?remote branch opts m1] by auto
      then show ?thesis
        using 1 c1 False Inr
        by (intro exI [of _ "c1 # cs"]) (simp add: SyncRepo_def cloneRepo_def sync_argv_def Let_def)
    qed
  qed
qed

lemma SyncRepo_more [frame_simps]: "machine.more (snd (SyncRepo os d url remote branch opts m)) = machine.more m"
  by (simp add: SyncRepo_def cloneRepo_def fetchReset_def Let_def split_def frame_simps split: sum.splits)

lemma HeadSHA_frames [frame_simps]:
  "machine.more (snd (HeadSHA os dir m)) = machine.more m"
  "ran (snd (HeadSHA os dir m)) = ran m @ [CommandContext ''git'' [''-C'', dir, ''rev-parse'', ''HEAD'']]"
  by (simp_all add: HeadSHA_def Let_def split_def frame_simps)

section \<open>Transports\<close>

text \<open>The characters git allows in the name of a transport or remote helper.\<close>

definition transport_char :: "char \<Rightarrow> bool" where
  "transport_char c \<longleftrightarrow> scheme_letter c \<or> scheme_tail c"

lemma transport_char_others [simp]:
  "transport_char c \<Longrightarrow> c \<noteq> CHR '':'' \<and> c \<noteq> CHR ''#'' \<and> c \<noteq> CHR ''@'' \<and> is_ascii c"
  by (auto simp: transport_char_def scheme_letter_def scheme_tail_def byte_class_defs byte_def)

lemma scpLike_no_transport:
  assumes "scpLike (t @ '':'' @ r)" shows "\<not> list_all transport_char t"
proof
  assume t: "list_all transport_char t"
  have "list_all scp_user_byte t"
    using t by (auto simp: list_all_iff scp_user_byte_def transport_char_def scheme_letter_def scheme_tail_def
        byte_class_defs byte_def)
  then have "dropWhile scp_user_byte (t @ '':'' @ r) = '':'' @ r"
    by (simp add: dropWhile_append list_all_iff scp_user_byte_def)
  with assms show False by (simp add: scpLike_def)
qed

lemma Cut_byte:
  assumes "Cut s [c] = (p, f, b)" shows "\<exists>q. s = p @ q \<and> (q = [] \<or> hd q = c)"
proof (cases "Index s [c]")
  case None
  then show ?thesis using assms by (simp add: Cut_def)
next
  case (Some i)
  then obtain r where "s = take i s @ c # r" by (auto simp: Index_byte_Some)
  then show ?thesis using Some assms by (auto simp: Cut_def intro!: exI [of _ "c # r"])
qed

lemma ToLower_ascii: "list_all is_ascii s \<Longrightarrow> ToLower ut s = map lower_byte s"
  by (simp add: ToLower_def)

lemma url_Parse_transport:
  assumes "url_Parse ut ip6 (t @ '':'' @ r) = Some u" "url_Scheme u \<noteq> []" "list_all transport_char t"
  shows "url_Scheme u = map lower_byte t"
proof -
  obtain p f b where cut: "Cut (t @ '':'' @ r) ''#'' = (p, f, b)" by (cases "Cut (t @ '':'' @ r) ''#''")
  have parse: "url_parse ut ip6 p = Some u"
    using assms(1) cut by (auto simp: url_Parse_def split: option.splits if_splits)
  obtain q where q: "t @ '':'' @ r = p @ q" "q = [] \<or> hd q = CHR ''#''" using Cut_byte [OF cut] by blast
  have "\<exists>r'. p = (t @ '':'') @ r'"
  proof (rule ccontr)
    assume no: "\<not> ?thesis"
    have "\<exists>w. p = (t @ '':'') @ w \<or> p @ w = t @ '':'' \<and> q = w @ r"
      using q(1) append_eq_append_conv2 [of "t @ '':''" r p q] by auto
    then obtain w where w: "p @ w = t @ '':''" "q = w @ r" using no by auto
    then have "w \<noteq> []" using no by auto
    then have "CHR ''#'' \<in> set w" using q(2) w(2) by (cases w) auto
    then have "CHR ''#'' \<in> set (t @ '':'')" unfolding w(1) [symmetric] by simp
    moreover have "\<not> transport_char (CHR ''#'')" by (blast dest: transport_char_others)
    ultimately show False using assms(3) by (auto simp: list_all_iff)
  qed
  then obtain r' where p: "p = t @ '':'' @ r'" by auto
  obtain sch rest where sch: "getScheme p = Some (sch, rest)" "url_Scheme u = ToLower ut sch"
    using url_parse_scheme [OF parse assms(2)] by blast
  have "sch \<noteq> []" using sch(2) assms(2) by (auto simp: ToLower_def)
  then have "sch = t"
    using getScheme_unique [OF sch(1) p] assms(3) by (simp add: transport_char_def [abs_def])
  then show ?thesis using sch(2) assms(3) by (simp add: ToLower_ascii list_all_iff)
qed

section \<open>Properties\<close>



text \<open>
  C24. An accepted repository URL cannot be taken for an option and cannot select a transport or
  remote helper other than https, http, ssh and git: whenever it has the form \<^verbatim>\<open>t://...\<close> or
  \<^verbatim>\<open>t::...\<close> with \<open>t\<close> the name of a transport, \<open>t\<close> is one of these four up to case. In particular
  no \<^verbatim>\<open>ext::\<close>, \<^verbatim>\<open>fd::\<close> or \<^verbatim>\<open>file://\<close> URL is accepted in any spelling.
\<close>

theorem ValidateRepoURL_transports:
  assumes "ValidateRepoURL ut ip6 raw = Inr ()"
  shows "TrimSpace raw \<noteq> [] \<and> hd (TrimSpace raw) \<noteq> CHR ''-''
    \<and> (\<forall>t r. TrimSpace raw = t @ '':'' @ r \<and> list_all transport_char t \<longrightarrow> map lower_byte t \<in> set allowed_schemes)"
proof -
  have ok: "TrimSpace raw \<noteq> []" "\<not> HasPrefix (TrimSpace raw) ''-''"
    and form: "(\<not> Contains (TrimSpace raw) ''://'' \<and> scpLike (TrimSpace raw))
       \<or> (\<exists>u. url_Parse ut ip6 (TrimSpace raw) = Some u \<and> url_Scheme u \<in> set allowed_schemes)"
    using assms by (auto simp: ValidateRepoURL_def Let_def split: if_splits option.splits)
  have "map lower_byte t \<in> set allowed_schemes"
    if "TrimSpace raw = t @ '':'' @ r" "list_all transport_char t" for t r
  proof (cases "scpLike (TrimSpace raw)")
    case True
    then show ?thesis using scpLike_no_transport that by metis
  next
    case False
    then obtain u where u: "url_Parse ut ip6 (TrimSpace raw) = Some u" "url_Scheme u \<in> set allowed_schemes"
      using form by blast
    have parse: "url_Parse ut ip6 (t @ '':'' @ r) = Some u" using u(1) that(1) by simp
    from u(2) have "url_Scheme u \<noteq> []" by (auto simp: allowed_schemes_def)
    then show ?thesis using url_Parse_transport [OF parse _ that(2)] u(2) by simp
  qed
  then show ?thesis using ok by (cases "TrimSpace raw") (auto simp: HasPrefix_def)
qed

definition ascii_tables :: unicode_tables where
  "ascii_tables = \<lparr>map_ToUpper = map upper_byte, map_ToLower = map lower_byte, fold_equal = (\<lambda>a b. a = b)\<rparr>"

theorem ValidateRepoURL_transports_witness:
  "ValidateRepoURL ascii_tables (\<lambda>_. False) '' HTTPS://git.example.com/x.git '' = Inr ()
   \<and> map lower_byte ''HTTPS'' \<in> set allowed_schemes"
proof -
  have v: "ValidateRepoURL ascii_tables (\<lambda>_. False) '' HTTPS://git.example.com/x.git '' = Inr ()" by code_simp
  have t: "TrimSpace '' HTTPS://git.example.com/x.git '' = ''HTTPS'' @ '':'' @ ''//git.example.com/x.git''"
    "list_all transport_char ''HTTPS''" by code_simp+
  show ?thesis using ValidateRepoURL_transports [OF v] t v by blast
qed



end
