(* ===== verification/Database.thy ===== *)
theory Database
  imports GoStrings "HOL-Library.List_Lexorder"
begin

unbundle bit_operations_syntax

text \<open>
  Package \<^verbatim>\<open>internal/db\<close>: the persistent configuration (repositories, SSH keys, settings). The
  tables are lists of rows with the columns, keys and uniqueness constraints of the migrations;
  each SQL statement of the source is the table operation it denotes. The database driver is not
  under the repository: whether it reports an error is read from a schedule of outcomes
  (\<open>faults\<close>), one entry per call, so every theorem holds for every pattern of failures. An error
  leaves the tables as they were. Conversion of instants to and from the text columns
  (\<^verbatim>\<open>time.DateTime\<close>) is an argument.
\<close>

section \<open>Placeholders\<close>

text \<open>\<^verbatim>\<open>Rebind\<close> numbers the placeholders of a query for Postgres.\<close>

fun rebind_from :: "nat \<Rightarrow> string \<Rightarrow> string" where
  "rebind_from n [] = []"
| "rebind_from n (c # cs) =
     (if c = CHR ''?'' then CHR ''$'' # show_nat n @ rebind_from (Suc n) cs
      else c # rebind_from n cs)"

definition Rebind :: "string \<Rightarrow> string \<Rightarrow> string" where
  "Rebind driverName query = (if driverName \<noteq> ''postgres'' then query else rebind_from 1 query)"

text \<open>
  What a bound query means: the sequence of its placeholders' argument numbers, and its text
  with every placeholder erased.
\<close>

fun bind_order :: "nat \<Rightarrow> string \<Rightarrow> nat list" where
  "bind_order n [] = []"
| "bind_order n (c # cs) = (if c = CHR ''?'' then n # bind_order (Suc n) cs else bind_order n cs)"

definition numbered :: "nat \<Rightarrow> string" where
  "numbered n = CHR ''$'' # show_nat n"

lemma digit_not_question: "is_digit c \<Longrightarrow> c \<noteq> CHR ''?''"
  by (auto simp: is_digit_def byte_def)

lemma show_nat_no_question: "CHR ''?'' \<notin> set (show_nat n)"
  using show_nat_digits [of n] digit_not_question by (auto simp: list_all_iff)

lemma rebind_no_question: "CHR ''?'' \<notin> set (rebind_from n q)"
  by (induction n q rule: rebind_from.induct) (auto simp: show_nat_no_question)

lemma upt_add_Suc: "[n ..< n + Suc k] = n # [Suc n ..< Suc n + k]" "[n ..< Suc (n + k)] = n # [Suc n ..< Suc (n + k)]"
  using upt_conv_Cons [of n "n + Suc k"] by simp_all

lemma bind_order_upt: "bind_order n q = [n ..< n + count_list q (CHR ''?'')]"
proof (induction q arbitrary: n)
  case Nil
  show ?case by simp
next
  case (Cons c cs)
  with Cons show ?case by (simp add: upt_add_Suc del: upt_Suc)
qed

text \<open>The rewritten query is the old one with its \<open>i\<close>-th placeholder replaced by \<^verbatim>\<open>$i\<close>.\<close>

lemma rebind_pieces:
  "Split (CHR ''?'') q = ps \<Longrightarrow>
   rebind_from n q = hd ps @ concat (map2 (\<lambda>i p. numbered i @ p) [n ..< n + length (tl ps)] (tl ps))"
proof (induction q arbitrary: n ps)
  case Nil
  then show ?case by auto
next
  case (Cons c cs)
  obtain p qs where pq: "Split (CHR ''?'') cs = p # qs" by (cases "Split (CHR ''?'') cs") simp_all
  show ?case
  proof (cases "c = CHR ''?''")
    case True
    with Cons.prems Cons.IH [OF pq, of "Suc n"] pq show ?thesis
      by (auto simp: numbered_def upt_add_Suc simp del: upt_Suc)
  next
    case False
    with Cons.prems Cons.IH [OF pq, of n] pq show ?thesis by auto
  qed
qed

section \<open>Identifiers\<close>

definition hex_digit :: "nat \<Rightarrow> char" where
  "hex_digit d = (if d < 10 then char_of (48 + d) else char_of (87 + d))"

definition hex_byte :: "8 word \<Rightarrow> string" where
  "hex_byte b = [hex_digit (unat b div 16), hex_digit (unat b mod 16)]"

definition hex :: "8 word list \<Rightarrow> string" where
  "hex bs = concat (map hex_byte bs)"

text \<open>
  \<^verbatim>\<open>newUUID\<close> from the 16 bytes \<^verbatim>\<open>rand.Read\<close> delivers; \<open>None\<close> as argument is a failing source of
  randomness, \<open>None\<close> as result the panic that follows.
\<close>

definition newUUID :: "8 word list option \<Rightarrow> string option" where
  "newUUID rnd =
     (case rnd of
        None \<Rightarrow> None
      | Some b0 \<Rightarrow>
          let b1 = b0[6 := (b0 ! 6 AND 0x0f) OR 0x40];
              b = b1[8 := (b1 ! 8 AND 0x3f) OR 0x80]
          in Some (hex (take 4 b) @ ''-'' @ hex (take 2 (drop 4 b)) @ ''-'' @ hex (take 2 (drop 6 b))
                   @ ''-'' @ hex (take 2 (drop 8 b)) @ ''-'' @ hex (drop 10 b)))"

lemma length_hex [simp]: "length (hex bs) = 2 * length bs"
  by (induction bs) (simp_all add: hex_def hex_byte_def)

lemma hex_Cons: "hex (b # bs) = hex_byte b @ hex bs"
  by (simp add: hex_def)

lemma hex_Nil [simp]: "hex [] = []"
  by (simp add: hex_def)

lemma version_nibble: "unat ((b AND 0x0f) OR 0x40 :: 8 word) div 16 = 4"
proof -
  have "drop_bit 4 ((b AND 0x0f) OR 0x40 :: 8 word) = 4"
    by (simp add: drop_bit_or drop_bit_and)
  then have "unat (drop_bit 4 ((b AND 0x0f) OR 0x40 :: 8 word)) = 4" by simp
  then show ?thesis by (simp add: drop_bit_eq_div unat_div)
qed

lemma variant_nibble: "unat ((b AND 0x3f) OR 0x80 :: 8 word) div 16 \<in> {8, 9, 10, 11}"
proof -
  have "drop_bit 6 ((b AND 0x3f) OR 0x80 :: 8 word) = 2"
    by (simp add: drop_bit_or drop_bit_and)
  then have "unat (drop_bit 6 ((b AND 0x3f) OR 0x80 :: 8 word)) = 2" by simp
  then have "unat ((b AND 0x3f) OR 0x80 :: 8 word) div 64 = 2"
    by (simp add: drop_bit_eq_div unat_div)
  then show ?thesis by auto
qed

lemma hex_digit_4: "hex_digit 4 = CHR ''4''"
  by code_simp

lemma hex_digit_variant: "d \<in> {8, 9, 10, 11} \<Longrightarrow> hex_digit d \<in> set ''89ab''"
proof -
  have "\<forall>d \<in> set [8, 9, 10, 11]. hex_digit d \<in> set ''89ab''" by code_simp
  then show "d \<in> {8, 9, 10, 11} \<Longrightarrow> ?thesis" by auto
qed

section \<open>Errors\<close>

text \<open>
  An error of the package is the operation that wraps it and its cause, which
  \<^verbatim>\<open>errors.Is\<close> still sees: no row, a violated constraint, a failing driver, a panic.
\<close>

datatype sql_error = ErrNoRows | ConstraintFailed | DriverFailed | Panic

type_synonym db_error = "string \<times> sql_error"

definition errors_Is :: "db_error \<Rightarrow> sql_error \<Rightarrow> bool" where
  "errors_Is e c \<longleftrightarrow> snd e = c"

section \<open>Tables\<close>

record RepoDB =
  rdb_ID :: string
  rdb_Name :: string
  rdb_URL :: string
  rdb_Branch :: string
  rdb_Remote :: string
  rdb_AuthType :: string
  rdb_SSHKeyID :: string
  rdb_PATEnc :: string
  rdb_StacksDir :: string
  rdb_SyncInterval :: goint
  rdb_Enabled :: bool
  rdb_CreatedAt :: gotime
  rdb_UpdatedAt :: gotime

record repo_row =
  row_id :: string
  row_name :: string
  row_url :: string
  row_branch :: string
  row_remote :: string
  row_auth_type :: string
  row_ssh_key_id :: "string option"
  row_pat_enc :: "string option"
  row_stacks_dir :: string
  row_sync_interval :: goint
  row_enabled :: int
  row_created_at :: string
  row_updated_at :: string

record SSHKeyDB =
  key_ID :: string
  key_Name :: string
  key_PrivateKeyEnc :: string
  key_PublicKey :: string
  key_CreatedAt :: gotime

record ssh_row =
  ssh_id :: string
  ssh_name :: string
  ssh_private_key_enc :: string
  ssh_public_key :: string
  ssh_created_at :: string

record setting_row =
  set_key :: string
  set_value :: "string option"
  set_sensitive :: int
  set_updated_at :: string

record database =
  db_repos :: "repo_row list"
  db_ssh_keys :: "ssh_row list"
  db_settings :: "setting_row list"
  faults :: "bool list"

text \<open>Instants in text columns (\<^verbatim>\<open>time.DateTime\<close>), as package \<^verbatim>\<open>time\<close> prints and parses them.\<close>

record datetime =
  dt_Format :: "gotime \<Rightarrow> string"
  dt_Parse :: "string \<Rightarrow> gotime option"

definition parse_time :: "datetime \<Rightarrow> string \<Rightarrow> gotime" where
  "parse_time dt s = (case dt_Parse dt s of None \<Rightarrow> zero_time | Some t \<Rightarrow> t)"

text \<open>The outcome of the next call of the driver.\<close>

definition driver_call :: "database \<Rightarrow> bool \<times> database" where
  "driver_call d = (case faults d of [] \<Rightarrow> (False, d) | f # fs \<Rightarrow> (f, d\<lparr>faults := fs\<rparr>))"

lemma driver_call_tables [simp]:
  "db_repos (snd (driver_call d)) = db_repos d"
  "db_ssh_keys (snd (driver_call d)) = db_ssh_keys d"
  "db_settings (snd (driver_call d)) = db_settings d"
  by (simp_all add: driver_call_def split: list.splits)

lemma driver_call_ok [simp]: "faults d = [] \<Longrightarrow> driver_call d = (False, d)"
  by (simp add: driver_call_def)

definition nullStr :: "string \<Rightarrow> string option" where
  "nullStr s = (if s = [] then None else Some s)"

text \<open>\<^verbatim>\<open>sql.NullString.String\<close>: the empty string for NULL.\<close>

definition null_String :: "string option \<Rightarrow> string" where
  "null_String v = (case v of None \<Rightarrow> [] | Some s \<Rightarrow> s)"

definition boolInt :: "bool \<Rightarrow> int" where
  "boolInt b = (if b then 1 else 0)"

lemma null_String_nullStr [simp]: "null_String (nullStr s) = s"
  by (simp add: null_String_def nullStr_def)

lemma boolInt_iff [simp]: "boolInt b \<noteq> 0 \<longleftrightarrow> b" "boolInt b = 0 \<longleftrightarrow> \<not> b"
  by (simp_all add: boolInt_def)

interpretation nullable: codec "\<lambda>_. True" nullStr "\<lambda>v. Some (null_String v)"
  by unfold_locales simp

interpretation bool_column: codec "\<lambda>_. True" boolInt "\<lambda>i. Some (i \<noteq> 0)"
  by unfold_locales simp

section \<open>Repositories\<close>

definition scanRepo :: "datetime \<Rightarrow> repo_row \<Rightarrow> RepoDB" where
  "scanRepo dt r =
     \<lparr>rdb_ID = row_id r, rdb_Name = row_name r, rdb_URL = row_url r, rdb_Branch = row_branch r,
      rdb_Remote = row_remote r, rdb_AuthType = row_auth_type r,
      rdb_SSHKeyID = null_String (row_ssh_key_id r), rdb_PATEnc = null_String (row_pat_enc r),
      rdb_StacksDir = row_stacks_dir r, rdb_SyncInterval = row_sync_interval r,
      rdb_Enabled = (row_enabled r \<noteq> 0),
      rdb_CreatedAt = parse_time dt (row_created_at r), rdb_UpdatedAt = parse_time dt (row_updated_at r)\<rparr>"

text \<open>\<^verbatim>\<open>ORDER BY name\<close>: byte order.\<close>

definition by_name :: "('r \<Rightarrow> string) \<Rightarrow> 'r list \<Rightarrow> 'r list" where
  "by_name f rows = sort_key (\<lambda>r. map byte (f r)) rows"

definition ListRepos :: "datetime \<Rightarrow> database \<Rightarrow> (db_error + RepoDB list) \<times> database" where
  "ListRepos dt d =
     (let (f1, d1) = driver_call d in
      if f1 then (Inl (''listRepos'', DriverFailed), d1)
      else let (f2, d2) = driver_call d1 in
        if f2 then (Inl (''rows.Err'', DriverFailed), d2)
        else (Inr (map (scanRepo dt) (by_name row_name (db_repos d2))), d2))"

definition select_repo :: "(repo_row \<Rightarrow> bool) \<Rightarrow> string \<Rightarrow> datetime \<Rightarrow> database \<Rightarrow> (db_error + RepoDB) \<times> database" where
  "select_repo p op dt d =
     (let (f, d1) = driver_call d in
      if f then (Inl (op, DriverFailed), d1)
      else case find p (db_repos d1) of
             None \<Rightarrow> (Inl (op, ErrNoRows), d1)
           | Some r \<Rightarrow> (Inr (scanRepo dt r), d1))"

definition db_GetRepo :: "datetime \<Rightarrow> string \<Rightarrow> database \<Rightarrow> (db_error + RepoDB) \<times> database" where
  "db_GetRepo dt i d = select_repo (\<lambda>r. row_id r = i) ''getRepo'' dt d"

definition GetRepoByName :: "datetime \<Rightarrow> string \<Rightarrow> database \<Rightarrow> (db_error + RepoDB) \<times> database" where
  "GetRepoByName dt n d = select_repo (\<lambda>r. row_name r = n) ''getRepoByName'' dt d"

text \<open>The \<^verbatim>\<open>INSERT\<close> into \<^verbatim>\<open>repos\<close>: the primary key and the unique name are checked.\<close>

definition insert_repo :: "repo_row \<Rightarrow> repo_row list \<Rightarrow> repo_row list option" where
  "insert_repo r rows =
     (if row_id r \<in> row_id ` set rows \<or> row_name r \<in> row_name ` set rows then None else Some (rows @ [r]))"

definition CreateRepo ::
    "datetime \<Rightarrow> 8 word list option \<Rightarrow> gotime \<Rightarrow> RepoDB \<Rightarrow> database \<Rightarrow> (db_error + unit) \<times> database" where
  "CreateRepo dt rnd now r d =
     (case (if rdb_ID r = [] then newUUID rnd else Some (rdb_ID r)) of
        None \<Rightarrow> (Inl (''newUUID'', Panic), d)
      | Some i \<Rightarrow>
          let ts = dt_Format dt now;
              row = \<lparr>row_id = i, row_name = rdb_Name r, row_url = rdb_URL r, row_branch = rdb_Branch r,
                     row_remote = rdb_Remote r, row_auth_type = rdb_AuthType r,
                     row_ssh_key_id = nullStr (rdb_SSHKeyID r), row_pat_enc = nullStr (rdb_PATEnc r),
                     row_stacks_dir = rdb_StacksDir r, row_sync_interval = rdb_SyncInterval r,
                     row_enabled = boolInt (rdb_Enabled r), row_created_at = ts, row_updated_at = ts\<rparr>;
              (f, d1) = driver_call d
          in if f then (Inl (''createRepo'', DriverFailed), d1)
             else case insert_repo row (db_repos d1) of
                    None \<Rightarrow> (Inl (''createRepo'', ConstraintFailed), d1)
                  | Some rows \<Rightarrow> (Inr (), d1\<lparr>db_repos := rows\<rparr>))"

text \<open>The \<^verbatim>\<open>UPDATE\<close> of the row with an id; its new name must not be another row's.\<close>

definition update_repo :: "(repo_row \<Rightarrow> repo_row) \<Rightarrow> string \<Rightarrow> string \<Rightarrow> repo_row list \<Rightarrow> repo_row list option" where
  "update_repo upd i n rows =
     (if (\<exists>r \<in> set rows. row_id r = i) \<and> (\<exists>r \<in> set rows. row_id r \<noteq> i \<and> row_name r = n) then None
      else Some (map (\<lambda>r. if row_id r = i then upd r else r) rows))"

definition set_repo_columns :: "datetime \<Rightarrow> gotime \<Rightarrow> RepoDB \<Rightarrow> repo_row \<Rightarrow> repo_row" where
  "set_repo_columns dt now r row = row
     \<lparr>row_name := rdb_Name r, row_url := rdb_URL r, row_branch := rdb_Branch r, row_remote := rdb_Remote r,
      row_auth_type := rdb_AuthType r, row_ssh_key_id := nullStr (rdb_SSHKeyID r),
      row_pat_enc := nullStr (rdb_PATEnc r), row_stacks_dir := rdb_StacksDir r,
      row_sync_interval := rdb_SyncInterval r, row_enabled := boolInt (rdb_Enabled r),
      row_updated_at := dt_Format dt now\<rparr>"

definition db_UpdateRepo :: "datetime \<Rightarrow> gotime \<Rightarrow> RepoDB \<Rightarrow> database \<Rightarrow> (db_error + unit) \<times> database" where
  "db_UpdateRepo dt now r d =
     (let (f, d1) = driver_call d in
      if f then (Inl (''updateRepo'', DriverFailed), d1)
      else case update_repo (set_repo_columns dt now r) (rdb_ID r) (rdb_Name r) (db_repos d1) of
             None \<Rightarrow> (Inl (''updateRepo'', ConstraintFailed), d1)
           | Some rows \<Rightarrow> (Inr (), d1\<lparr>db_repos := rows\<rparr>))"

definition DeleteRepo :: "string \<Rightarrow> database \<Rightarrow> (db_error + unit) \<times> database" where
  "DeleteRepo i d =
     (let (f, d1) = driver_call d in
      if f then (Inl (''deleteRepo'', DriverFailed), d1)
      else (Inr (), d1\<lparr>db_repos := filter (\<lambda>r. row_id r \<noteq> i) (db_repos d1)\<rparr>))"

section \<open>SSH keys\<close>

definition scanSSHKey :: "datetime \<Rightarrow> ssh_row \<Rightarrow> SSHKeyDB" where
  "scanSSHKey dt r =
     \<lparr>key_ID = ssh_id r, key_Name = ssh_name r, key_PrivateKeyEnc = ssh_private_key_enc r,
      key_PublicKey = ssh_public_key r, key_CreatedAt = parse_time dt (ssh_created_at r)\<rparr>"

definition ListSSHKeys :: "datetime \<Rightarrow> database \<Rightarrow> (db_error + SSHKeyDB list) \<times> database" where
  "ListSSHKeys dt d =
     (let (f1, d1) = driver_call d in
      if f1 then (Inl (''listSSHKeys'', DriverFailed), d1)
      else let (f2, d2) = driver_call d1 in
        if f2 then (Inl (''rows.Err'', DriverFailed), d2)
        else (Inr (map (scanSSHKey dt) (by_name ssh_name (db_ssh_keys d2))), d2))"

definition GetSSHKey :: "datetime \<Rightarrow> string \<Rightarrow> database \<Rightarrow> (db_error + SSHKeyDB) \<times> database" where
  "GetSSHKey dt i d =
     (let (f, d1) = driver_call d in
      if f then (Inl (''getSSHKey'', DriverFailed), d1)
      else case find (\<lambda>r. ssh_id r = i) (db_ssh_keys d1) of
             None \<Rightarrow> (Inl (''getSSHKey'', ErrNoRows), d1)
           | Some r \<Rightarrow> (Inr (scanSSHKey dt r), d1))"

definition CreateSSHKey ::
    "datetime \<Rightarrow> 8 word list option \<Rightarrow> gotime \<Rightarrow> SSHKeyDB \<Rightarrow> database \<Rightarrow> (db_error + unit) \<times> database" where
  "CreateSSHKey dt rnd now k d =
     (case (if key_ID k = [] then newUUID rnd else Some (key_ID k)) of
        None \<Rightarrow> (Inl (''newUUID'', Panic), d)
      | Some i \<Rightarrow>
          let row = \<lparr>ssh_id = i, ssh_name = key_Name k, ssh_private_key_enc = key_PrivateKeyEnc k,
                     ssh_public_key = key_PublicKey k, ssh_created_at = dt_Format dt now\<rparr>;
              (f, d1) = driver_call d
          in if f then (Inl (''createSSHKey'', DriverFailed), d1)
             else if i \<in> ssh_id ` set (db_ssh_keys d1) \<or> key_Name k \<in> ssh_name ` set (db_ssh_keys d1)
             then (Inl (''createSSHKey'', ConstraintFailed), d1)
             else (Inr (), d1\<lparr>db_ssh_keys := db_ssh_keys d1 @ [row]\<rparr>))"

definition DeleteSSHKey :: "string \<Rightarrow> database \<Rightarrow> (db_error + unit) \<times> database" where
  "DeleteSSHKey i d =
     (let (f, d1) = driver_call d in
      if f then (Inl (''deleteSSHKey'', DriverFailed), d1)
      else (Inr (), d1\<lparr>db_ssh_keys := filter (\<lambda>r. ssh_id r \<noteq> i) (db_ssh_keys d1)\<rparr>))"

section \<open>Settings\<close>

definition sensitiveKeys :: "string list" where
  "sensitiveKeys = [''dashboard_token'', ''infisical_token'']"

definition find_setting :: "setting_row list \<Rightarrow> string \<Rightarrow> setting_row option" where
  "find_setting rows k = find (\<lambda>r. set_key r = k) rows"

definition GetSetting :: "string \<Rightarrow> database \<Rightarrow> (db_error + string \<times> bool) \<times> database" where
  "GetSetting k d =
     (let (f, d1) = driver_call d in
      if f then (Inl (''getSetting'', DriverFailed), d1)
      else case find_setting (db_settings d1) k of
             None \<Rightarrow> (Inl (''getSetting'', ErrNoRows), d1)
           | Some r \<Rightarrow> (Inr (null_String (set_value r), set_sensitive r \<noteq> 0), d1))"

text \<open>\<^verbatim>\<open>INSERT ... ON CONFLICT(key) DO UPDATE\<close>: an existing row keeps its \<^verbatim>\<open>sensitive\<close> flag.\<close>

definition upsert_setting :: "string \<Rightarrow> string \<Rightarrow> int \<Rightarrow> string \<Rightarrow> setting_row list \<Rightarrow> setting_row list" where
  "upsert_setting k v sensitive ts rows =
     (if find_setting rows k = None
      then rows @ [\<lparr>set_key = k, set_value = Some v, set_sensitive = sensitive, set_updated_at = ts\<rparr>]
      else map (\<lambda>r. if set_key r = k then r\<lparr>set_value := Some v, set_updated_at := ts\<rparr> else r) rows)"

definition SetSetting :: "datetime \<Rightarrow> gotime \<Rightarrow> string \<Rightarrow> string \<Rightarrow> database \<Rightarrow> (db_error + unit) \<times> database" where
  "SetSetting dt now k v d =
     (let sensitive = (if k \<in> set sensitiveKeys then 1 else 0);
          (f, d1) = driver_call d
      in if f then (Inl (''setSetting'', DriverFailed), d1)
         else (Inr (), d1\<lparr>db_settings := upsert_setting k v sensitive (dt_Format dt now) (db_settings d1)\<rparr>))"

definition masked_value :: "setting_row \<Rightarrow> string" where
  "masked_value r = (if set_sensitive r \<noteq> 0 then [] else null_String (set_value r))"

definition GetAllSettings :: "database \<Rightarrow> (db_error + (string, string) gomap) \<times> database" where
  "GetAllSettings d =
     (let (f1, d1) = driver_call d in
      if f1 then (Inl (''getAllSettings'', DriverFailed), d1)
      else let (f2, d2) = driver_call d1 in
        if f2 then (Inl (''rows.Err'', DriverFailed), d2)
        else (Inr (fold (\<lambda>r. mput (set_key r) (masked_value r)) (db_settings d2) []), d2))"

section \<open>Opening the database\<close>

text \<open>
  \<^verbatim>\<open>Open\<close> chooses the driver from the URL's scheme, pings, and runs the migrations, retrying once
  after a dirty state. The outcomes of the driver and of the migration library are arguments.
\<close>

datatype migrate_result = Up_ok | Up_no_change | Up_dirty | Up_failed

record open_outcomes =
  sql_Open_ok :: bool
  wal_ok :: bool
  ping_ok :: bool
  iofs_ok :: bool
  migrate_new_ok :: bool
  up_first :: migrate_result
  force_ok :: bool
  up_retry :: migrate_result

definition sqlite_dsn :: "string \<Rightarrow> string" where
  "sqlite_dsn dbURL =
     (let filePath = TrimPrefix dbURL ''sqlite://'' in
      if Contains filePath ''?'' then filePath @ ''&_pragma=busy_timeout(5000)''
      else filePath @ ''?_pragma=busy_timeout(5000)'')"

definition run_migrations :: "open_outcomes \<Rightarrow> string + unit" where
  "run_migrations oc =
     (case up_first oc of
        Up_ok \<Rightarrow> Inr ()
      | Up_no_change \<Rightarrow> Inr ()
      | Up_failed \<Rightarrow> Inl ''db.Open migrate up''
      | Up_dirty \<Rightarrow>
          if \<not> force_ok oc then Inl ''db.Open migrate force''
          else (case up_retry oc of
                  Up_ok \<Rightarrow> Inr ()
                | Up_no_change \<Rightarrow> Inr ()
                | _ \<Rightarrow> Inl ''db.Open migrate up (retry)''))"

text \<open>The result is the driver's name and the data source it is opened with.\<close>

definition db_Open :: "string \<Rightarrow> open_outcomes \<Rightarrow> string + string \<times> string" where
  "db_Open dbURL oc =
     (let (scheme, _, found) = Cut dbURL ''://'' in
      if \<not> found then Inl ''db.Open: invalid DB_URL''
      else
        case (if scheme = ''sqlite'' then
                (if \<not> sql_Open_ok oc then Inl ''db.Open sqlite''
                 else if \<not> wal_ok oc then Inl ''db.Open WAL pragma''
                 else Inr (''sqlite'', sqlite_dsn dbURL))
              else if scheme \<in> {''postgres'', ''postgresql''} then
                (if \<not> sql_Open_ok oc then Inl ''db.Open postgres'' else Inr (''postgres'', dbURL))
              else Inl ''db.Open: unsupported scheme'') of
          Inl e \<Rightarrow> Inl e
        | Inr conn \<Rightarrow>
            if \<not> ping_ok oc then Inl ''db.Open ping''
            else if \<not> iofs_ok oc then Inl ''db.Open iofs''
            else if \<not> migrate_new_ok oc then Inl ''db.Open migrate: failed to open database''
            else case run_migrations oc of Inl e \<Rightarrow> Inl e | Inr _ \<Rightarrow> Inr conn)"

text \<open>What the migrations leave in an empty database: the seeded settings.\<close>

definition seed_setting :: "string \<Rightarrow> string \<Rightarrow> int \<Rightarrow> setting_row list \<Rightarrow> setting_row list" where
  "seed_setting k v sensitive rows =
     (if find_setting rows k = None
      then rows @ [\<lparr>set_key = k, set_value = Some v, set_sensitive = sensitive, set_updated_at = []\<rparr>]
      else rows)"

definition migrate_001 :: "setting_row list \<Rightarrow> setting_row list" where
  "migrate_001 = seed_setting ''git_user_email'' ''stackd@localhost'' 0
     \<circ> seed_setting ''git_user_name'' ''stackd'' 0 \<circ> seed_setting ''infisical_url'' '''' 0
     \<circ> seed_setting ''infisical_env'' ''prod'' 0 \<circ> seed_setting ''infisical_token'' '''' 1"

definition migrate_002 :: "setting_row list \<Rightarrow> setting_row list" where
  "migrate_002 = seed_setting ''infisical_project_id'' '''' 0"

definition migrate_003 :: "setting_row list \<Rightarrow> setting_row list" where
  "migrate_003 = filter (\<lambda>r. set_key r \<noteq> ''pull_only'')"

definition migrate_004 :: "setting_row list \<Rightarrow> setting_row list" where
  "migrate_004 = seed_setting ''default_sync_interval'' ''60'' 0 \<circ> seed_setting ''dashboard_token'' '''' 1"

definition fresh_database :: "bool list \<Rightarrow> database" where
  "fresh_database fs =
     \<lparr>db_repos = [], db_ssh_keys = [],
      db_settings = migrate_004 (migrate_003 (migrate_002 (migrate_001 []))), faults = fs\<rparr>"

section \<open>Characteristic facts of the operations\<close>

lemma errors_Is_simps [simp]: "errors_Is (op, c) c' \<longleftrightarrow> c = c'"
  by (simp add: errors_Is_def)

lemma find_setting_key: "find_setting rows k = Some r \<Longrightarrow> set_key r = k \<and> r \<in> set rows"
  by (auto simp: find_setting_def find_Some_iff)

lemma find_setting_None: "find_setting rows k = None \<longleftrightarrow> k \<notin> set_key ` set rows"
  by (auto simp: find_setting_def find_None_iff)

lemma find_append: "find P (xs @ ys) = (case find P xs of None \<Rightarrow> find P ys | Some x \<Rightarrow> Some x)"
  by (induction xs) auto

lemma find_map_same: "(\<And>x. P (f x) \<longleftrightarrow> P x) \<Longrightarrow> find P (map f xs) = map_option f (find P xs)"
  by (induction xs) auto

definition setting_text :: "setting_row list \<Rightarrow> string \<Rightarrow> string option" where
  "setting_text rows k = map_option (null_String \<circ> set_value) (find_setting rows k)"

lemma find_upsert:
  "find_setting (upsert_setting k v sens ts rows) k' =
     (if k' = k then
        Some (case find_setting rows k of
                None \<Rightarrow> \<lparr>set_key = k, set_value = Some v, set_sensitive = sens, set_updated_at = ts\<rparr>
              | Some r \<Rightarrow> r\<lparr>set_value := Some v, set_updated_at := ts\<rparr>)
      else find_setting rows k')"
proof (cases "find_setting rows k")
  case None
  then show ?thesis
    by (auto simp: upsert_setting_def find_setting_def find_append split: option.splits)
next
  case (Some r0)
  let ?f = "\<lambda>r. if set_key r = k then r\<lparr>set_value := Some v, set_updated_at := ts\<rparr> else r"
  have "find_setting (map ?f rows) k' = map_option ?f (find_setting rows k')"
    unfolding find_setting_def by (rule find_map_same) simp
  then have "find_setting (upsert_setting k v sens ts rows) k' = map_option ?f (find_setting rows k')"
    using Some by (simp add: upsert_setting_def)
  then show ?thesis
    using Some find_setting_key [OF Some]
    by (cases "find_setting rows k'") (auto dest: find_setting_key)
qed

lemma setting_text_upsert:
  "setting_text (upsert_setting k v sens ts rows) k' = (if k = k' then Some v else setting_text rows k')"
  by (auto simp: setting_text_def find_upsert null_String_def split: option.splits)

text \<open>The settings table is a keyed store, whatever flag and timestamp the writes carry.\<close>

interpretation settings: keyed_store setting_text "\<lambda>k v. upsert_setting k v sens ts" for sens ts
  by unfold_locales (simp_all add: setting_text_upsert)

lemma GetSetting_ok:
  "faults d = [] \<Longrightarrow> fst (GetSetting k d) =
     (case find_setting (db_settings d) k of
        None \<Rightarrow> Inl (''getSetting'', ErrNoRows)
      | Some r \<Rightarrow> Inr (null_String (set_value r), set_sensitive r \<noteq> 0))"
  by (simp add: GetSetting_def split: option.splits)

lemma SetSetting_ok:
  "faults d = [] \<Longrightarrow> SetSetting dt now k v d =
     (Inr (), d\<lparr>db_settings :=
        upsert_setting k v (if k \<in> set sensitiveKeys then 1 else 0) (dt_Format dt now) (db_settings d)\<rparr>)"
  by (simp add: SetSetting_def)

text \<open>An operation that reports an error has left every table as it was.\<close>

definition same_tables :: "database \<Rightarrow> database \<Rightarrow> bool" where
  "same_tables d d' \<longleftrightarrow> db_repos d' = db_repos d \<and> db_ssh_keys d' = db_ssh_keys d \<and> db_settings d' = db_settings d"

lemma same_tables_driver [simp]: "same_tables d (snd (driver_call d))"
  by (simp add: same_tables_def)

lemma driver_callE:
  obtains f d1 where "driver_call d = (f, d1)" "same_tables d d1"
  using same_tables_driver [of d] by (cases "driver_call d") auto

section \<open>Integrity of the tables\<close>

definition repos_ok :: "repo_row list \<Rightarrow> bool" where
  "repos_ok rows \<longleftrightarrow> distinct (map row_id rows) \<and> distinct (map row_name rows)"

definition ssh_ok :: "ssh_row list \<Rightarrow> bool" where
  "ssh_ok rows \<longleftrightarrow> distinct (map ssh_id rows) \<and> distinct (map ssh_name rows)"

definition settings_ok :: "setting_row list \<Rightarrow> bool" where
  "settings_ok rows \<longleftrightarrow> distinct (map set_key rows)
     \<and> list_all (\<lambda>r. set_key r \<in> set sensitiveKeys \<longrightarrow> set_sensitive r \<noteq> 0) rows"

definition db_integrity :: "database \<Rightarrow> bool" where
  "db_integrity d \<longleftrightarrow> repos_ok (db_repos d) \<and> ssh_ok (db_ssh_keys d) \<and> settings_ok (db_settings d)"

text \<open>Every write the program sends to the database, with any arguments and any driver outcome.\<close>

inductive db_write :: "datetime \<Rightarrow> database \<Rightarrow> database \<Rightarrow> bool" for dt :: datetime where
  w_create_repo: "db_write dt d (snd (CreateRepo dt rnd now r d))"
| w_update_repo: "db_write dt d (snd (db_UpdateRepo dt now r d))"
| w_delete_repo: "db_write dt d (snd (DeleteRepo i d))"
| w_create_key: "db_write dt d (snd (CreateSSHKey dt rnd now k d))"
| w_delete_key: "db_write dt d (snd (DeleteSSHKey i d))"
| w_setting: "db_write dt d (snd (SetSetting dt now k v d))"

lemma insert_repo_ok: "repos_ok rows \<Longrightarrow> insert_repo r rows = Some rows' \<Longrightarrow> repos_ok rows'"
  by (auto simp: insert_repo_def repos_ok_def split: if_splits)

lemma update_repo_ok:
  assumes ok: "repos_ok rows" and upd: "update_repo f i n rows = Some rows'"
    and f: "\<And>r. row_id (f r) = row_id r" "\<And>r. row_name (f r) = n"
  shows "repos_ok rows'"
proof -
  let ?g = "\<lambda>r. if row_id r = i then f r else r"
  have rows': "rows' = map ?g rows"
    and free: "\<And>r s. r \<in> set rows \<Longrightarrow> row_id r = i \<Longrightarrow> s \<in> set rows \<Longrightarrow> row_id s \<noteq> i \<Longrightarrow> row_name s \<noteq> n"
    using upd by (auto simp: update_repo_def split: if_splits)
  have dist: "distinct rows" "inj_on row_id (set rows)" "inj_on row_name (set rows)"
    using ok by (auto simp: repos_ok_def distinct_map)
  have ids: "map row_id rows' = map row_id rows" unfolding rows' by (simp add: f)
  have "inj_on (row_name \<circ> ?g) (set rows)"
  proof (rule inj_onI)
    fix r s assume rs: "r \<in> set rows" "s \<in> set rows" "(row_name \<circ> ?g) r = (row_name \<circ> ?g) s"
    show "r = s"
    proof (cases "row_id r = i"; cases "row_id s = i")
      assume "row_id r = i" "row_id s = i"
      with rs dist show ?thesis by (auto dest: inj_onD)
    next
      assume "row_id r = i" "row_id s \<noteq> i"
      with rs free show ?thesis by (auto simp: f)
    next
      assume "row_id r \<noteq> i" "row_id s = i"
      with rs free show ?thesis by (auto simp: f)
    next
      assume "row_id r \<noteq> i" "row_id s \<noteq> i"
      with rs dist show ?thesis by (auto dest: inj_onD)
    qed
  qed
  then have "distinct (map row_name rows')"
    unfolding rows' by (simp add: distinct_map dist(1) o_def)
  with ids ok show ?thesis by (simp add: repos_ok_def)
qed

lemma upsert_settings_ok:
  assumes ok: "settings_ok rows" and sens: "k \<in> set sensitiveKeys \<Longrightarrow> sens \<noteq> 0"
  shows "settings_ok (upsert_setting k v sens ts rows)"
proof (cases "find_setting rows k")
  case None
  with ok sens show ?thesis
    by (auto simp: upsert_setting_def settings_ok_def find_setting_None)
next
  case (Some r)
  let ?f = "\<lambda>r. if set_key r = k then r\<lparr>set_value := Some v, set_updated_at := ts\<rparr> else r"
  have "map set_key (map ?f rows) = map set_key rows" by simp
  with Some ok show ?thesis
    by (auto simp: upsert_setting_def settings_ok_def list_all_iff simp del: map_map)
qed

lemma db_integrity_same: "same_tables d d' \<Longrightarrow> db_integrity d \<Longrightarrow> db_integrity d'"
  by (simp add: db_integrity_def same_tables_def)

lemma integrity_CreateRepo: "db_integrity d \<Longrightarrow> db_integrity (snd (CreateRepo dt rnd now r d))"
  by (rule driver_callE [of d])
    (auto simp: CreateRepo_def Let_def same_tables_def db_integrity_def intro: insert_repo_ok split: option.splits if_splits)

lemma integrity_UpdateRepo: "db_integrity d \<Longrightarrow> db_integrity (snd (db_UpdateRepo dt now r d))"
  by (rule driver_callE [of d])
    (auto simp: db_UpdateRepo_def same_tables_def db_integrity_def set_repo_columns_def
      intro: update_repo_ok split: option.splits if_splits)

lemma distinct_map_filter_key: "distinct (map f xs) \<Longrightarrow> distinct (map f (filter P xs))"
  by (rule distinct_map_filter)

lemma integrity_DeleteRepo: "db_integrity d \<Longrightarrow> db_integrity (snd (DeleteRepo i d))"
  by (rule driver_callE [of d])
    (auto simp: DeleteRepo_def same_tables_def db_integrity_def repos_ok_def intro: distinct_map_filter_key)

lemma integrity_CreateSSHKey: "db_integrity d \<Longrightarrow> db_integrity (snd (CreateSSHKey dt rnd now k d))"
  by (rule driver_callE [of d])
    (auto simp: CreateSSHKey_def Let_def same_tables_def db_integrity_def ssh_ok_def split: option.splits)

lemma integrity_DeleteSSHKey: "db_integrity d \<Longrightarrow> db_integrity (snd (DeleteSSHKey i d))"
  by (rule driver_callE [of d])
    (auto simp: DeleteSSHKey_def same_tables_def db_integrity_def ssh_ok_def intro: distinct_map_filter_key)

lemma integrity_SetSetting: "db_integrity d \<Longrightarrow> db_integrity (snd (SetSetting dt now k v d))"
  by (rule driver_callE [of d])
    (auto simp: SetSetting_def Let_def same_tables_def db_integrity_def intro: upsert_settings_ok)

lemmas integrity_intros = integrity_CreateRepo integrity_UpdateRepo integrity_DeleteRepo
  integrity_CreateSSHKey integrity_DeleteSSHKey integrity_SetSetting

lemma integrity_fresh: "db_integrity (fresh_database fs)"
proof -
  have "settings_ok (db_settings (fresh_database fs))"
    unfolding fresh_database_def by code_simp
  then show ?thesis by (simp add: db_integrity_def fresh_database_def repos_ok_def ssh_ok_def)
qed

interpretation db_machine: transition_system "\<lambda>d. \<exists>fs. d = fresh_database fs" "db_write dt" db_integrity for dt
proof unfold_locales
  show "\<exists>fs. d = fresh_database fs \<Longrightarrow> db_integrity d" for d
    using integrity_fresh by auto
  show "db_integrity d \<Longrightarrow> db_write dt d d' \<Longrightarrow> db_integrity d'" for d d'
    by (auto elim!: db_write.cases intro: integrity_intros)
qed

section \<open>What a read after a write returns\<close>

lemma fold_mput_other:
  "k \<notin> set_key ` set rows \<Longrightarrow> mget (fold (\<lambda>r. mput (set_key r) (masked_value r)) rows m) k = mget m k"
  by (induction rows arbitrary: m) auto

lemma fold_mput_rows:
  "distinct (map set_key rows) \<Longrightarrow>
   mget (fold (\<lambda>r. mput (set_key r) (masked_value r)) rows m) k =
     (case find_setting rows k of None \<Rightarrow> mget m k | Some r \<Rightarrow> Some (masked_value r))"
proof (induction rows arbitrary: m)
  case Nil
  show ?case by (simp add: find_setting_def)
next
  case (Cons r rows)
  show ?case
  proof (cases "set_key r = k")
    case True
    with Cons.prems have "k \<notin> set_key ` set rows" by auto
    with True show ?thesis by (simp add: find_setting_def fold_mput_other)
  next
    case False
    with Cons show ?thesis by (simp add: find_setting_def split: option.split)
  qed
qed

lemma GetAllSettings_ok:
  assumes "GetAllSettings d = (Inr m, d')" "settings_ok (db_settings d)"
  shows "mget m k = map_option masked_value (find_setting (db_settings d) k)"
proof -
  obtain f1 d1 where 1: "driver_call d = (f1, d1)" "same_tables d d1" by (rule driver_callE)
  obtain f2 d2 where 2: "driver_call d1 = (f2, d2)" "same_tables d1 d2" by (rule driver_callE)
  have "m = fold (\<lambda>r. mput (set_key r) (masked_value r)) (db_settings d) []"
    using assms(1) 1 2 by (auto simp: GetAllSettings_def same_tables_def split: if_splits)
  then show ?thesis
    using assms(2) fold_mput_rows [of "db_settings d" "[]" k]
    by (auto simp: settings_ok_def split: option.splits)
qed

section \<open>Properties\<close>

lemma length_16:
  "length b = 16 \<Longrightarrow> \<exists>b0 b1 b2 b3 b4 b5 b6 b7 b8 b9 b10 b11 b12 b13 b14 b15.
     b = [b0, b1, b2, b3, b4, b5, b6, b7, b8, b9, b10, b11, b12, b13, b14, b15]"
  by (auto simp: numeral_eq_Suc length_Suc_conv)

text \<open>
  \<^verbatim>\<open>Rebind\<close> on Postgres replaces the \<open>i\<close>-th question mark of the query by \<^verbatim>\<open>$i\<close>, counting from
  one, and keeps every other byte; no question mark is left. For another driver the query is
  unchanged.
\<close>

theorem Rebind_numbers_placeholders:
  "Rebind driver q =
     (if driver = ''postgres''
      then hd (Split (CHR ''?'') q)
           @ concat (map2 (\<lambda>i p. numbered i @ p) [1 ..< 1 + length (tl (Split (CHR ''?'') q))] (tl (Split (CHR ''?'') q)))
      else q)
   \<and> CHR ''?'' \<notin> set (Rebind ''postgres'' q)"
  using rebind_pieces [OF refl, where n = 1 and q = q] rebind_no_question [of 1 q]
  by (simp add: Rebind_def)

text \<open>
  Every identifier \<^verbatim>\<open>newUUID\<close> makes from 16 random bytes is a version-4 UUID: 36 characters,
  dashes at positions 8, 13, 18 and 23, the version digit 4 and a variant digit 8, 9, a or b.
\<close>

theorem newUUID_version_4:
  assumes "length bs = 16"
  shows "\<exists>u. newUUID (Some bs) = Some u \<and> length u = 36
     \<and> u ! 8 = CHR ''-'' \<and> u ! 13 = CHR ''-'' \<and> u ! 18 = CHR ''-'' \<and> u ! 23 = CHR ''-''
     \<and> u ! 14 = CHR ''4'' \<and> u ! 19 \<in> set ''89ab''"
proof -
  obtain b0 b1 b2 b3 b4 b5 b6 b7 b8 b9 b10 b11 b12 b13 b14 b15
    where bs: "bs = [b0, b1, b2, b3, b4, b5, b6, b7, b8, b9, b10, b11, b12, b13, b14, b15]"
    using length_16 [OF assms] by blast
  have "hex_digit (unat ((b8 AND 0x3f) OR 0x80 :: 8 word) div 16) \<in> set ''89ab''"
    by (rule hex_digit_variant [OF variant_nibble])
  then show ?thesis
    by (simp add: bs newUUID_def hex_Cons hex_byte_def version_nibble hex_digit_4)
qed

theorem newUUID_version_4_witness:
  "length (replicate 16 (0 :: 8 word)) = 16
   \<and> (\<exists>u. newUUID (Some (replicate 16 (0 :: 8 word))) = Some u \<and> length u = 36
     \<and> u ! 8 = CHR ''-'' \<and> u ! 13 = CHR ''-'' \<and> u ! 18 = CHR ''-'' \<and> u ! 23 = CHR ''-''
     \<and> u ! 14 = CHR ''4'' \<and> u ! 19 \<in> set ''89ab'')"
  using newUUID_version_4 [of "replicate 16 0"] by simp

text \<open>A concrete formatter of instants, for the witnesses below.\<close>

definition demo_dt :: datetime where
  "demo_dt = \<lparr>dt_Format = (\<lambda>t. show_int t), dt_Parse = (\<lambda>s. Some (int (digits_val s)))\<rparr>"

definition demo_repo :: RepoDB where
  "demo_repo =
     \<lparr>rdb_ID = ''r1'', rdb_Name = ''dockers'', rdb_URL = ''https://example.com/x.git'', rdb_Branch = ''main'',
      rdb_Remote = ''origin'', rdb_AuthType = ''none'', rdb_SSHKeyID = '''', rdb_PATEnc = '''', rdb_StacksDir = ''.'',
      rdb_SyncInterval = 60, rdb_Enabled = True, rdb_CreatedAt = 0, rdb_UpdatedAt = 0\<rparr>"

text \<open>
  C14. From the migrated empty database, whatever sequence of writes the program makes and however
  the driver fails, repository ids and names, SSH key ids and names and settings keys stay unique,
  and the dashboard and Infisical tokens stay flagged as sensitive.
\<close>

theorem db_integrity_reachable:
  assumes "reach (\<lambda>d. \<exists>fs. d = fresh_database fs) (db_write dt) d"
  shows "db_integrity d"
  by (rule db_machine.reach_invariant [OF assms])

theorem db_integrity_reachable_witness:
  "reach (\<lambda>d. \<exists>fs. d = fresh_database fs) (db_write demo_dt)
     (snd (CreateRepo demo_dt None 5 demo_repo (fresh_database [])))
   \<and> db_integrity (snd (CreateRepo demo_dt None 5 demo_repo (fresh_database [])))"
proof -
  have "reach (\<lambda>d. \<exists>fs. d = fresh_database fs) (db_write demo_dt)
     (snd (CreateRepo demo_dt None 5 demo_repo (fresh_database [])))"
    by (rule reach_step [where s = "fresh_database []"], rule reach_init, blast, rule w_create_repo)
  then show ?thesis using db_integrity_reachable by blast
qed

text \<open>
  The settings listing never discloses a secret: in every reachable database, the entry of a
  sensitive key in the result of \<^verbatim>\<open>GetAllSettings\<close> is the empty string.
\<close>

theorem GetAllSettings_masks_secrets:
  assumes "reach (\<lambda>d. \<exists>fs. d = fresh_database fs) (db_write dt) d"
    and "GetAllSettings d = (Inr m, d')" and "k \<in> set sensitiveKeys"
  shows "mget0 [] m k = []"
proof -
  have ok: "settings_ok (db_settings d)"
    using db_machine.reach_invariant [OF assms(1)] by (simp add: db_integrity_def)
  show ?thesis
  proof (cases "find_setting (db_settings d) k")
    case None
    with GetAllSettings_ok [OF assms(2) ok, of k] show ?thesis by (simp add: mget0_def)
  next
    case (Some r)
    then have "set_sensitive r \<noteq> 0"
      using find_setting_key [OF Some] ok assms(3) by (auto simp: settings_ok_def list_all_iff)
    with GetAllSettings_ok [OF assms(2) ok, of k] Some show ?thesis
      by (simp add: mget0_def masked_value_def)
  qed
qed

theorem GetAllSettings_masks_secrets_witness:
  "\<exists>d m d'. db_settings d = upsert_setting ''dashboard_token'' ''tok'' 1 ''7'' (db_settings (fresh_database []))
     \<and> GetAllSettings d = (Inr m, d') \<and> mget0 [] m ''dashboard_token'' = []"
proof -
  let ?d = "snd (SetSetting demo_dt 7 ''dashboard_token'' ''tok'' (fresh_database []))"
  have fd: "faults (fresh_database []) = []" by (simp add: fresh_database_def)
  have r: "reach (\<lambda>d. \<exists>fs. d = fresh_database fs) (db_write demo_dt) ?d"
    by (rule reach_step [where s = "fresh_database []"], rule reach_init, blast, rule w_setting)
  have d: "?d = fresh_database [] \<lparr>db_settings :=
      upsert_setting ''dashboard_token'' ''tok'' 1 (show_int 7) (db_settings (fresh_database []))\<rparr>"
    by (simp add: SetSetting_ok [OF fd] sensitiveKeys_def demo_dt_def)
  have s7: "show_int 7 = ''7''" by code_simp
  have f: "faults ?d = []" unfolding d by (simp add: fd)
  obtain m d' where g: "GetAllSettings ?d = (Inr m, d')" by (simp add: GetAllSettings_def f)
  have "mget0 [] m ''dashboard_token'' = []"
    by (rule GetAllSettings_masks_secrets [OF r g]) (simp add: sensitiveKeys_def)
  moreover have "db_settings ?d = upsert_setting ''dashboard_token'' ''tok'' 1 ''7'' (db_settings (fresh_database []))"
    unfolding d s7 [symmetric] by simp
  ultimately show ?thesis using g by blast
qed

text \<open>
  C9. Saving a setting and reading it back: with a working driver, \<^verbatim>\<open>GetSetting\<close> after \<^verbatim>\<open>SetSetting\<close>
  returns the saved value, whether or not the key existed; the sensitive flag is the row's old one,
  or the built-in classification for a new row; every other key reads as before.
\<close>

theorem SetSetting_GetSetting:
  assumes "faults d = []"
  shows "fst (GetSetting k' (snd (SetSetting dt now k v d))) =
     (if k' = k
      then Inr (v, case find_setting (db_settings d) k of
                     None \<Rightarrow> k \<in> set sensitiveKeys
                   | Some r \<Rightarrow> set_sensitive r \<noteq> 0)
      else fst (GetSetting k' d))"
  using assms
  by (auto simp: SetSetting_ok GetSetting_ok find_upsert null_String_def split: option.splits)

theorem SetSetting_GetSetting_witness:
  "faults (fresh_database []) = [] \<and>
   fst (GetSetting ''infisical_env'' (snd (SetSetting demo_dt 3 ''infisical_env'' ''dev'' (fresh_database []))))
     = Inr (''dev'', False)"
proof -
  have f: "faults (fresh_database []) = []" by (simp add: fresh_database_def)
  have "map_option set_sensitive (find_setting (db_settings (fresh_database [])) ''infisical_env'') = Some 0"
    by code_simp
  then show ?thesis
    using SetSetting_GetSetting [OF f, of "''infisical_env''" demo_dt 3 "''infisical_env''" "''dev''"] f
    by auto
qed

text \<open>
  A repository read by name after it was created is the one that was created, field by field,
  up to its identifier (kept when the caller supplied one) and its timestamps.
\<close>

theorem CreateRepo_GetRepoByName:
  assumes "CreateRepo dt rnd now r d = (Inr (), d')" and "faults d' = []"
  shows "\<exists>i. fst (GetRepoByName dt (rdb_Name r) d') =
     Inr (r\<lparr>rdb_ID := i, rdb_CreatedAt := parse_time dt (dt_Format dt now),
            rdb_UpdatedAt := parse_time dt (dt_Format dt now)\<rparr>)
     \<and> (rdb_ID r = [] \<or> i = rdb_ID r)"
proof -
  obtain f d1 where 1: "driver_call d = (f, d1)" by (cases "driver_call d")
  obtain i where i: "(if rdb_ID r = [] then newUUID rnd else Some (rdb_ID r)) = Some i"
    using assms(1) by (auto simp: CreateRepo_def split: option.splits)
  let ?row = "\<lparr>row_id = i, row_name = rdb_Name r, row_url = rdb_URL r, row_branch = rdb_Branch r,
     row_remote = rdb_Remote r, row_auth_type = rdb_AuthType r,
     row_ssh_key_id = nullStr (rdb_SSHKeyID r), row_pat_enc = nullStr (rdb_PATEnc r),
     row_stacks_dir = rdb_StacksDir r, row_sync_interval = rdb_SyncInterval r,
     row_enabled = boolInt (rdb_Enabled r), row_created_at = dt_Format dt now, row_updated_at = dt_Format dt now\<rparr>"
  have rows: "db_repos d' = db_repos d1 @ [?row]" and new: "rdb_Name r \<notin> row_name ` set (db_repos d1)"
    using assms(1) 1 i
    by (auto simp: CreateRepo_def Let_def insert_repo_def simp del: newUUID_def split: if_splits)
  have "find (\<lambda>x. row_name x = rdb_Name r) (db_repos d1) = None"
    unfolding find_None_iff using new by (metis imageI)
  then have "find (\<lambda>x. row_name x = rdb_Name r) (db_repos d') = Some ?row"
    unfolding rows by (simp add: find_append)
  then have "fst (GetRepoByName dt (rdb_Name r) d') = Inr (scanRepo dt ?row)"
    using assms(2) by (simp add: GetRepoByName_def select_repo_def)
  moreover have "rdb_ID r = [] \<or> i = rdb_ID r" using i by (auto split: if_splits)
  ultimately show ?thesis by (intro exI [of _ i]) (simp add: scanRepo_def)
qed

theorem CreateRepo_GetRepoByName_witness:
  "\<exists>i. fst (GetRepoByName demo_dt ''dockers'' (snd (CreateRepo demo_dt None 5 demo_repo (fresh_database [])))) =
     Inr (demo_repo\<lparr>rdb_ID := i, rdb_CreatedAt := parse_time demo_dt (dt_Format demo_dt 5),
                    rdb_UpdatedAt := parse_time demo_dt (dt_Format demo_dt 5)\<rparr>)
     \<and> (rdb_ID demo_repo = [] \<or> i = rdb_ID demo_repo)"
proof -
  have c: "\<exists>d'. CreateRepo demo_dt None 5 demo_repo (fresh_database []) = (Inr (), d') \<and> faults d' = []"
    by (simp add: CreateRepo_def Let_def demo_repo_def fresh_database_def insert_repo_def)
  then obtain d' where "CreateRepo demo_dt None 5 demo_repo (fresh_database []) = (Inr (), d')" "faults d' = []"
    by blast
  from CreateRepo_GetRepoByName [OF this] this(1) show ?thesis by (simp add: demo_repo_def)
qed

text \<open>
  An update writes the row with the given identifier and no other: that row keeps its
  identifier and creation time and takes the new columns; every other row is untouched, as are the
  other tables. An update that would give the repository another repository's name is refused and
  changes nothing.
\<close>

theorem UpdateRepo_row_by_row:
  assumes "db_UpdateRepo dt now r d = (res, d')"
  shows "(case res of
            Inr _ \<Rightarrow> db_repos d' = map (\<lambda>x. if row_id x = rdb_ID r then set_repo_columns dt now r x else x) (db_repos d)
          | Inl e \<Rightarrow> db_repos d' = db_repos d)
     \<and> db_ssh_keys d' = db_ssh_keys d \<and> db_settings d' = db_settings d
     \<and> (faults d = [] \<and> (\<exists>x \<in> set (db_repos d). row_id x = rdb_ID r)
          \<and> (\<exists>x \<in> set (db_repos d). row_id x \<noteq> rdb_ID r \<and> row_name x = rdb_Name r)
        \<longrightarrow> res = Inl (''updateRepo'', ConstraintFailed))"
proof -
  obtain f d1 where 1: "driver_call d = (f, d1)" "same_tables d d1" by (rule driver_callE)
  show ?thesis
    using assms 1
    by (auto simp: db_UpdateRepo_def same_tables_def update_repo_def split: if_splits)
qed

theorem UpdateRepo_row_by_row_witness:
  "\<exists>res d'. db_UpdateRepo demo_dt 9 (demo_repo\<lparr>rdb_Branch := ''dev''\<rparr>)
      (snd (CreateRepo demo_dt None 5 demo_repo (fresh_database []))) = (res, d')
     \<and> res = Inr () \<and> map row_branch (db_repos d') = [''dev'']"
proof -
  let ?r = "demo_repo\<lparr>rdb_Branch := ''dev''\<rparr>"
  let ?d = "snd (CreateRepo demo_dt None 5 demo_repo (fresh_database []))"
  obtain res d' where u: "db_UpdateRepo demo_dt 9 ?r ?d = (res, d')" by fastforce
  have rows: "\<exists>x. db_repos ?d = [x] \<and> row_id x = ''r1''" and f: "faults ?d = []"
    by (simp_all add: CreateRepo_def Let_def demo_repo_def fresh_database_def insert_repo_def)
  have res: "res = Inr ()" using u rows f by (auto simp: db_UpdateRepo_def update_repo_def demo_repo_def)
  have "map row_branch (db_repos d') = [''dev'']"
    using UpdateRepo_row_by_row [OF u] rows res by (auto simp: demo_repo_def set_repo_columns_def)
  then show ?thesis using u res by (intro exI [of _ res] exI [of _ d']) simp
qed

end
