(* ===== verification/State_Store.thy ===== *)
theory State_Store
  imports GoStrings
begin

text \<open>
  \<^verbatim>\<open>src/internal/state/state.go\<close>: the in-memory state the dashboard shows (\<^verbatim>\<open>Store\<close>) and the bus
  that carries live activity to its subscribers (\<^verbatim>\<open>ActivityBus\<close>). Every method holds the mutex of
  its object for its whole body, so a method call is one step of the model.
\<close>

section \<open>The store\<close>

datatype SyncStatus = StatusOK | StatusError | StatusSyncing | Status_unset

datatype ApplyStatus = ApplyOK | ApplyError | ApplyApplying

record RepoState =
  rs_Name :: string
  rs_LastSync :: gotime
  rs_LastSHA :: string
  rs_Status :: SyncStatus
  rs_LastError :: string

record ContainerDetail =
  ct_ID :: string
  ct_Name :: string
  ct_Image :: string
  ct_Status :: string
  ct_StartedAt :: gotime
  ct_Env :: "string list"
  ct_Ports :: "string list"

record StackState =
  ss_Name :: string
  ss_RepoName :: string
  ss_StackDir :: string
  ss_LastApply :: gotime
  ss_Status :: ApplyStatus
  ss_LastOutput :: string
  ss_LastError :: string
  ss_Containers :: "ContainerDetail list"
  ss_InfisicalMode :: string

record InfisicalState =
  inf_Enabled :: bool
  inf_Env :: string

record FullState =
  fs_Repos :: "RepoState list"
  fs_Stacks :: "StackState list"
  fs_Infisical :: InfisicalState

record Store =
  st_repos :: "(string, RepoState) gomap"
  st_stacks :: "(string, StackState) gomap"
  st_infisical :: InfisicalState

text \<open>The orders in which the runtime happens to visit the two maps.\<close>

record map_orders =
  ord_repos :: "(string \<times> RepoState) list \<Rightarrow> (string \<times> RepoState) list"
  ord_stacks :: "(string \<times> StackState) list \<Rightarrow> (string \<times> StackState) list"

definition permuting :: "map_orders \<Rightarrow> bool" where
  "permuting ord \<longleftrightarrow> (\<forall>xs. mset (ord_repos ord xs) = mset xs) \<and> (\<forall>xs. mset (ord_stacks ord xs) = mset xs)"

definition store_New :: Store where
  "store_New = \<lparr>st_repos = [], st_stacks = [], st_infisical = \<lparr>inf_Enabled = False, inf_Env = []\<rparr>\<rparr>"

definition zero_RepoState :: RepoState where
  "zero_RepoState = \<lparr>rs_Name = [], rs_LastSync = zero_time, rs_LastSHA = [], rs_Status = Status_unset, rs_LastError = []\<rparr>"

definition UpdateRepo :: "RepoState \<Rightarrow> Store \<Rightarrow> Store" where
  "UpdateRepo r s = s\<lparr>st_repos := mput (rs_Name r) r (st_repos s)\<rparr>"

definition GetRepo :: "Store \<Rightarrow> string \<Rightarrow> RepoState option" where
  "GetRepo s name = mget (st_repos s) name"

definition GetAllRepos :: "map_orders \<Rightarrow> Store \<Rightarrow> RepoState list" where
  "GetAllRepos ord s = map snd (ord_repos ord (st_repos s))"

definition stack_key :: "string \<Rightarrow> string \<Rightarrow> string" where
  "stack_key repo name = repo @ ''/'' @ name"

definition UpdateStack :: "StackState \<Rightarrow> Store \<Rightarrow> Store" where
  "UpdateStack st s = s\<lparr>st_stacks := mput (stack_key (ss_RepoName st) (ss_Name st)) st (st_stacks s)\<rparr>"

definition GetStack :: "Store \<Rightarrow> string \<Rightarrow> string \<Rightarrow> StackState option" where
  "GetStack s repo name = mget (st_stacks s) (stack_key repo name)"

definition UpdateStackContainers :: "string \<Rightarrow> string \<Rightarrow> ContainerDetail list \<Rightarrow> Store \<Rightarrow> Store" where
  "UpdateStackContainers repo name containers s =
     (case mget (st_stacks s) (stack_key repo name) of
        Some existing \<Rightarrow>
          s\<lparr>st_stacks := mput (stack_key repo name) (existing\<lparr>ss_Containers := containers\<rparr>) (st_stacks s)\<rparr>
      | None \<Rightarrow> s)"

definition GetAllStacks :: "map_orders \<Rightarrow> Store \<Rightarrow> StackState list" where
  "GetAllStacks ord s = map snd (ord_stacks ord (st_stacks s))"

definition SetInfisical :: "InfisicalState \<Rightarrow> Store \<Rightarrow> Store" where
  "SetInfisical i s = s\<lparr>st_infisical := i\<rparr>"

definition GetAll :: "map_orders \<Rightarrow> Store \<Rightarrow> FullState" where
  "GetAll ord s = \<lparr>fs_Repos = map snd (ord_repos ord (st_repos s)),
                 fs_Stacks = map snd (ord_stacks ord (st_stacks s)), fs_Infisical = st_infisical s\<rparr>"

section \<open>The activity bus\<close>

record ActivityEvent =
  ev_Type :: string
  ev_Repo :: string
  ev_Stack :: string
  ev_Msg :: string

text \<open>
  A subscriber's channel holds 32 events. A send is non-blocking; a send on a closed channel and
  a second close panic.
\<close>

record channel =
  ch_buf :: "ActivityEvent list"
  ch_closed :: bool

definition sub_cap :: nat where
  "sub_cap = 32"

definition ch_send :: "ActivityEvent \<Rightarrow> channel \<Rightarrow> channel" where
  "ch_send e c = (if length (ch_buf c) < sub_cap then c\<lparr>ch_buf := ch_buf c @ [e]\<rparr> else c)"

definition ch_sent :: "ActivityEvent \<Rightarrow> channel \<Rightarrow> bool" where
  "ch_sent e c \<longleftrightarrow> length (ch_buf c) < sub_cap"

definition ch_recv :: "channel \<Rightarrow> (ActivityEvent \<times> channel) option" where
  "ch_recv c = (case ch_buf c of [] \<Rightarrow> None | e # es \<Rightarrow> Some (e, c\<lparr>ch_buf := es\<rparr>))"

interpretation sub_chan: bounded_channel sub_cap ch_buf ch_send ch_sent ch_recv
  by unfold_locales (auto simp: ch_send_def ch_sent_def ch_recv_def)

text \<open>All channels ever made, and the registered ones.\<close>

record ActivityBus =
  bus_chans :: "channel list"
  bus_subs :: "nat list"

definition NewActivityBus :: ActivityBus where
  "NewActivityBus = \<lparr>bus_chans = [], bus_subs = []\<rparr>"

text \<open>\<open>None\<close> is a panic.\<close>

definition Publish :: "ActivityEvent \<Rightarrow> ActivityBus \<Rightarrow> ActivityBus option" where
  "Publish e b =
     (if \<exists>ch \<in> set (bus_subs b). ch_closed (bus_chans b ! ch) then None
      else Some (b\<lparr>bus_chans := fold (\<lambda>ch cs. cs[ch := ch_send e (cs ! ch)]) (bus_subs b) (bus_chans b)\<rparr>))"

definition Subscribe :: "ActivityBus \<Rightarrow> nat \<times> ActivityBus" where
  "Subscribe b = (let ch = length (bus_chans b) in
     (ch, \<lparr>bus_chans = bus_chans b @ [\<lparr>ch_buf = [], ch_closed = False\<rparr>], bus_subs = ch # bus_subs b\<rparr>))"

definition bus_cancel :: "nat \<Rightarrow> ActivityBus \<Rightarrow> ActivityBus option" where
  "bus_cancel ch b =
     (let b1 = b\<lparr>bus_subs := filter (\<lambda>c. c \<noteq> ch) (bus_subs b)\<rparr> in
      if ch_closed (bus_chans b1 ! ch) then None
      else Some (b1\<lparr>bus_chans := (bus_chans b1)[ch := (bus_chans b1 ! ch)\<lparr>ch_closed := True\<rparr>]\<rparr>))"

text \<open>One receive: \<open>Inl False\<close> when it would block, \<open>Inl True\<close> when the channel is closed and drained.\<close>

definition bus_receive :: "nat \<Rightarrow> ActivityBus \<Rightarrow> (bool + ActivityEvent) \<times> ActivityBus" where
  "bus_receive ch b =
     (case ch_recv (bus_chans b ! ch) of
        None \<Rightarrow> (Inl (ch_closed (bus_chans b ! ch)), b)
      | Some (e, c) \<Rightarrow> (Inr e, b\<lparr>bus_chans := (bus_chans b)[ch := c]\<rparr>))"

section \<open>Reads after writes\<close>

lemma stack_key_inj:
  "CHR ''/'' \<notin> set r \<Longrightarrow> CHR ''/'' \<notin> set r' \<Longrightarrow> stack_key r n = stack_key r' n' \<longleftrightarrow> r = r' \<and> n = n'"
proof -
  assume r: "CHR ''/'' \<notin> set r" "CHR ''/'' \<notin> set r'"
  have "takeWhile (\<lambda>c. c \<noteq> CHR ''/'') (stack_key q m) = q" if "CHR ''/'' \<notin> set q" for q m
  proof -
    have "takeWhile (\<lambda>c. c \<noteq> CHR ''/'') q = q" using that by (auto simp: takeWhile_eq_all_conv)
    then show ?thesis using that by (simp add: stack_key_def takeWhile_append)
  qed
  from this [OF r(1), of n] this [OF r(2), of n'] show ?thesis
    by (auto simp: stack_key_def)
qed

definition put_stack :: "string \<Rightarrow> StackState \<Rightarrow> Store \<Rightarrow> Store" where
  "put_stack k st s = s\<lparr>st_stacks := mput k st (st_stacks s)\<rparr>"

definition get_stack :: "Store \<Rightarrow> string \<Rightarrow> StackState option" where
  "get_stack s k = mget (st_stacks s) k"

definition put_repo :: "string \<Rightarrow> RepoState \<Rightarrow> Store \<Rightarrow> Store" where
  "put_repo k r s = s\<lparr>st_repos := mput k r (st_repos s)\<rparr>"

interpretation stack_store: keyed_store get_stack put_stack
  by unfold_locales (simp_all add: get_stack_def put_stack_def)

interpretation repo_store: keyed_store GetRepo put_repo
  by unfold_locales (simp_all add: GetRepo_def put_repo_def)

lemma UpdateStack_put: "UpdateStack st s = put_stack (stack_key (ss_RepoName st) (ss_Name st)) st s"
  by (simp add: UpdateStack_def put_stack_def)

lemma GetStack_get: "GetStack s r n = get_stack s (stack_key r n)"
  by (simp add: GetStack_def get_stack_def)

lemma UpdateRepo_put: "UpdateRepo r s = put_repo (rs_Name r) r s"
  by (simp add: UpdateRepo_def put_repo_def)

lemma GetRepo_UpdateRepo [store_simps]:
  "GetRepo (UpdateRepo r s) n = (if rs_Name r = n then Some r else GetRepo s n)"
  by (simp add: UpdateRepo_put repo_store.get_put)

lemma get_stack_UpdateStackContainers:
  "get_stack (UpdateStackContainers r n cs s) k =
     (if k = stack_key r n then map_option (\<lambda>st. st\<lparr>ss_Containers := cs\<rparr>) (get_stack s k) else get_stack s k)"
  by (simp add: UpdateStackContainers_def get_stack_def split: option.splits)

lemma store_frames [frame_simps, simp]:
  "st_stacks (UpdateRepo r s) = st_stacks s" "st_infisical (UpdateRepo r s) = st_infisical s"
  "st_repos (UpdateStack st s) = st_repos s" "st_infisical (UpdateStack st s) = st_infisical s"
  "st_repos (UpdateStackContainers a b cs s) = st_repos s"
  "st_infisical (UpdateStackContainers a b cs s) = st_infisical s"
  "st_repos (SetInfisical i s) = st_repos s" "st_stacks (SetInfisical i s) = st_stacks s"
  by (simp_all add: UpdateRepo_def UpdateStack_def UpdateStackContainers_def SetInfisical_def split: option.splits)

lemma GetRepo_frames [frame_simps, simp]:
  "GetRepo (UpdateStack st s) n = GetRepo s n" "GetRepo (UpdateStackContainers a b cs s) n = GetRepo s n"
  "GetRepo (SetInfisical i s) n = GetRepo s n"
  by (simp_all add: GetRepo_def)

section \<open>Integrity of the store\<close>

inductive store_step :: "Store \<Rightarrow> Store \<Rightarrow> bool" where
  s_repo: "store_step s (UpdateRepo r s)"
| s_stack: "store_step s (UpdateStack st s)"
| s_containers: "store_step s (UpdateStackContainers r n cs s)"
| s_infisical: "store_step s (SetInfisical i s)"

text \<open>Every entry is filed under its own name, once.\<close>

definition store_ok :: "Store \<Rightarrow> bool" where
  "store_ok s \<longleftrightarrow> wf_map (st_repos s) \<and> wf_map (st_stacks s)
     \<and> (\<forall>(k, r) \<in> set (st_repos s). k = rs_Name r)
     \<and> (\<forall>(k, st) \<in> set (st_stacks s). k = stack_key (ss_RepoName st) (ss_Name st))"

interpretation store_machine: transition_system "\<lambda>s. s = store_New" store_step store_ok
proof unfold_locales
  fix s :: Store
  assume "s = store_New"
  then show "store_ok s" by (simp add: store_ok_def store_New_def)
next
  fix s t :: Store
  assume ok: "store_ok s" and "store_step s t"
  from this(2) show "store_ok t"
  proof cases
    case (s_repo r)
    then show ?thesis using ok
      by (auto simp: store_ok_def UpdateRepo_def dest: set_mputD)
  next
    case (s_stack st)
    then show ?thesis using ok by (auto simp: store_ok_def UpdateStack_def dest: set_mputD)
  next
    case (s_containers r n cs)
    then show ?thesis using ok
      by (auto simp: store_ok_def UpdateStackContainers_def dest!: set_mputD map_of_SomeD split: option.splits)
  next
    case (s_infisical i)
    then show ?thesis using ok by (simp add: store_ok_def SetInfisical_def)
  qed
qed

lemma in_GetAll:
  assumes "store_ok s" "permuting ord"
  shows "st \<in> set (fs_Stacks (GetAll ord s)) \<longleftrightarrow> GetStack s (ss_RepoName st) (ss_Name st) = Some st"
    and "r \<in> set (fs_Repos (GetAll ord s)) \<longleftrightarrow> GetRepo s (rs_Name r) = Some r"
    and "distinct (map (\<lambda>x. stack_key (ss_RepoName x) (ss_Name x)) (fs_Stacks (GetAll ord s)))"
proof -
  have m: "mset (ord_stacks ord (st_stacks s)) = mset (st_stacks s)"
    "mset (ord_repos ord (st_repos s)) = mset (st_repos s)"
    using assms(2) by (simp_all add: permuting_def)
  note sets = m [THEN mset_eq_setD]
  have keyed: "x \<in> snd ` set m \<longleftrightarrow> mget m (f x) = Some x"
    if "wf_map m" "\<forall>(k, v) \<in> set m. k = f v" for f :: "'v \<Rightarrow> string" and m x
  proof -
    have "x \<in> snd ` set m \<longleftrightarrow> (f x, x) \<in> set m" using that(2) by force
    then show ?thesis by (simp add: mget_in_set [OF that(1)])
  qed
  show "st \<in> set (fs_Stacks (GetAll ord s)) \<longleftrightarrow> GetStack s (ss_RepoName st) (ss_Name st) = Some st"
    using assms(1) sets(1) keyed [of "st_stacks s" "\<lambda>x. stack_key (ss_RepoName x) (ss_Name x)" st]
    by (simp add: GetAll_def GetStack_def store_ok_def)
  show "r \<in> set (fs_Repos (GetAll ord s)) \<longleftrightarrow> GetRepo s (rs_Name r) = Some r"
    using assms(1) sets(2) keyed [of "st_repos s" rs_Name r]
    by (simp add: GetAll_def GetRepo_def store_ok_def)
  have "map (\<lambda>x. stack_key (ss_RepoName x) (ss_Name x)) (fs_Stacks (GetAll ord s)) = map fst (ord_stacks ord (st_stacks s))"
    using assms(1) sets(1) by (auto simp: GetAll_def store_ok_def)
  moreover have "mset (map fst (ord_stacks ord (st_stacks s))) = mset (map fst (st_stacks s))"
    using m(1) by simp
  then have "distinct (map fst (ord_stacks ord (st_stacks s)))"
    using assms(1) mset_eq_imp_distinct_iff unfolding store_ok_def by blast
  ultimately show "distinct (map (\<lambda>x. stack_key (ss_RepoName x) (ss_Name x)) (fs_Stacks (GetAll ord s)))" by simp
qed

section \<open>Subscriptions\<close>

inductive bus_step :: "ActivityBus \<Rightarrow> ActivityBus \<Rightarrow> bool" where
  b_publish: "Publish e b = Some b' \<Longrightarrow> bus_step b b'"
| b_subscribe: "bus_step b (snd (Subscribe b))"
| b_receive: "ch < length (bus_chans b) \<Longrightarrow> bus_step b (snd (bus_receive ch b))"
| b_cancel: "ch \<in> set (bus_subs b) \<Longrightarrow> bus_cancel ch b = Some b' \<Longrightarrow> bus_step b b'"

text \<open>Registered channels exist, once each, are open, and no buffer is over its capacity.\<close>

definition bus_ok :: "ActivityBus \<Rightarrow> bool" where
  "bus_ok b \<longleftrightarrow> distinct (bus_subs b)
     \<and> (\<forall>ch \<in> set (bus_subs b). ch < length (bus_chans b) \<and> \<not> ch_closed (bus_chans b ! ch))
     \<and> (\<forall>c \<in> set (bus_chans b). length (ch_buf c) \<le> sub_cap)"

lemma fold_update_nth:
  assumes "distinct is" "\<forall>i \<in> set is. i < length cs"
  shows "length (fold (\<lambda>i cs. cs[i := f (cs ! i)]) is cs) = length cs
    \<and> (\<forall>j < length cs. fold (\<lambda>i cs. cs[i := f (cs ! i)]) is cs ! j = (if j \<in> set is then f (cs ! j) else cs ! j))"
  using assms
proof (induction "is" arbitrary: cs)
  case Nil
  then show ?case by simp
next
  case (Cons i "is")
  have "length (fold (\<lambda>i cs. cs[i := f (cs ! i)]) is (cs[i := f (cs ! i)])) = length (cs[i := f (cs ! i)])
    \<and> (\<forall>j < length (cs[i := f (cs ! i)]). fold (\<lambda>i cs. cs[i := f (cs ! i)]) is (cs[i := f (cs ! i)]) ! j
        = (if j \<in> set is then f (cs[i := f (cs ! i)] ! j) else cs[i := f (cs ! i)] ! j))"
    using Cons.prems by (intro Cons.IH) simp_all
  then show ?case using Cons.prems by (auto simp: nth_list_update)
qed

lemma Publish_ok:
  assumes "bus_ok b"
  shows "\<exists>b'. Publish e b = Some b' \<and> bus_subs b' = bus_subs b \<and> length (bus_chans b') = length (bus_chans b)
    \<and> (\<forall>j < length (bus_chans b). bus_chans b' ! j
         = (if j \<in> set (bus_subs b) then ch_send e (bus_chans b ! j) else bus_chans b ! j))"
proof -
  have "\<forall>i \<in> set (bus_subs b). i < length (bus_chans b)" "distinct (bus_subs b)"
    using assms by (simp_all add: bus_ok_def)
  note f = fold_update_nth [OF this(2,1), of "ch_send e"]
  have "Publish e b = Some (b\<lparr>bus_chans := fold (\<lambda>ch cs. cs[ch := ch_send e (cs ! ch)]) (bus_subs b) (bus_chans b)\<rparr>)"
    using assms by (auto simp: Publish_def bus_ok_def)
  with f show ?thesis by simp
qed

lemma ch_send_closed [simp]: "ch_closed (ch_send e c) = ch_closed c"
  by (simp add: ch_send_def)

lemma bus_ok_Publish:
  assumes "bus_ok b" "Publish e b = Some b'" shows "bus_ok b'"
proof -
  obtain b2 where b2: "Publish e b = Some b2" "bus_subs b2 = bus_subs b" "length (bus_chans b2) = length (bus_chans b)"
    "\<forall>j < length (bus_chans b).
       bus_chans b2 ! j = (if j \<in> set (bus_subs b) then ch_send e (bus_chans b ! j) else bus_chans b ! j)"
    using Publish_ok [OF assms(1), of e] by blast
  have "b' = b2" using assms(2) b2(1) by simp
  then show ?thesis
    using assms(1) b2(2-4) by (auto simp: bus_ok_def all_set_conv_all_nth sub_chan.send_bound)
qed

lemma bus_ok_receive:
  assumes "bus_ok b" "ch < length (bus_chans b)" shows "bus_ok (snd (bus_receive ch b))"
proof (cases "ch_buf (bus_chans b ! ch)")
  case Nil
  then show ?thesis using assms by (simp add: bus_receive_def ch_recv_def)
next
  case (Cons e es)
  have "length (ch_buf (bus_chans b ! ch)) \<le> sub_cap" using assms by (simp add: bus_ok_def)
  then show ?thesis
    using assms Cons
    by (auto simp: bus_receive_def ch_recv_def bus_ok_def nth_list_update dest!: set_update_subset_insert [THEN subsetD])
qed

interpretation bus_machine: transition_system "\<lambda>b. b = NewActivityBus" bus_step bus_ok
proof unfold_locales
  fix b :: ActivityBus
  assume "b = NewActivityBus"
  then show "bus_ok b" by (simp add: NewActivityBus_def bus_ok_def)
next
  fix b b' :: ActivityBus
  assume ok: "bus_ok b" and "bus_step b b'"
  from this(2) show "bus_ok b'"
  proof cases
    case (b_publish e)
    with ok show ?thesis by (simp add: bus_ok_Publish)
  next
    case b_subscribe
    then show ?thesis using ok by (auto simp: Subscribe_def bus_ok_def Let_def nth_append)
  next
    case (b_receive ch)
    with ok show ?thesis by (simp add: bus_ok_receive)
  next
    case (b_cancel ch)
    then have "ch < length (bus_chans b)" using ok by (simp add: bus_ok_def)
    then show ?thesis
      using b_cancel ok by (auto simp: bus_cancel_def Let_def bus_ok_def nth_list_update split: if_splits
          dest!: set_update_subset_insert [THEN subsetD])
  qed
qed

section \<open>Properties\<close>

text \<open>
  Stacks do not interfere: for repository names without a slash, the only ones the API
  accepts, storing a stack or refreshing its containers shows in reads of that very stack alone,
  and a refresh changes nothing but the containers of a stack that already exists.
\<close>

theorem stacks_independent:
  assumes "CHR ''/'' \<notin> set r" and "CHR ''/'' \<notin> set (ss_RepoName st)" and "CHR ''/'' \<notin> set r'"
  shows "GetStack (UpdateStack st s) r n
       = (if r = ss_RepoName st \<and> n = ss_Name st then Some st else GetStack s r n)
    \<and> GetStack (UpdateStackContainers r' n' cs s) r n
       = (if r = r' \<and> n = n' then map_option (\<lambda>x. x\<lparr>ss_Containers := cs\<rparr>) (GetStack s r n) else GetStack s r n)"
  using assms
  by (simp add: GetStack_get UpdateStack_put stack_store.get_put get_stack_UpdateStackContainers
      stack_key_inj eq_commute)

definition demo_stack :: StackState where
  "demo_stack = \<lparr>ss_Name = ''plex'', ss_RepoName = ''dockers'', ss_StackDir = ''/r/dockers/plex'', ss_LastApply = 7,
     ss_Status = ApplyOK, ss_LastOutput = [], ss_LastError = [], ss_Containers = [], ss_InfisicalMode = []\<rparr>"

theorem stacks_independent_witness:
  "GetStack (UpdateStack demo_stack store_New) ''dockers'' ''plex'' = Some demo_stack
   \<and> GetStack (UpdateStack demo_stack store_New) ''docker'' ''s/plex'' = None"
  using stacks_independent [of "''dockers''" demo_stack "''x''" store_New "''plex''"]
    stacks_independent [of "''docker''" demo_stack "''x''" store_New "''s/plex''"]
  by (simp add: demo_stack_def GetStack_def store_New_def)



text \<open>
  C16. Publishing never panics and never blocks, in any interleaving of publishers, subscribers
  that come and go, and receivers: no send ever meets a closed channel. Every registered
  subscriber gets the event at the end of its queue while fewer than 32 are waiting and misses it
  otherwise; other channels are untouched; no queue is ever longer than 32.
\<close>

theorem Publish_delivers:
  assumes "reach (\<lambda>b. b = NewActivityBus) bus_step b" and "ch < length (bus_chans b)"
  shows "\<exists>b'. Publish e b = Some b' \<and> length (ch_buf (bus_chans b' ! ch)) \<le> 32
    \<and> ch_buf (bus_chans b' ! ch) =
        (if ch \<in> set (bus_subs b) \<and> length (ch_buf (bus_chans b ! ch)) < 32
         then ch_buf (bus_chans b ! ch) @ [e] else ch_buf (bus_chans b ! ch))"
proof -
  have ok: "bus_ok b" using bus_machine.reach_invariant [OF assms(1)] .
  obtain b' where b': "Publish e b = Some b'" "length (bus_chans b') = length (bus_chans b)"
    "\<forall>j < length (bus_chans b).
       bus_chans b' ! j = (if j \<in> set (bus_subs b) then ch_send e (bus_chans b ! j) else bus_chans b ! j)"
    using Publish_ok [OF ok, of e] by blast
  have "bus_ok b'" using bus_ok_Publish [OF ok b'(1)] .
  then have "length (ch_buf (bus_chans b' ! ch)) \<le> 32"
    using b'(2) assms(2) by (simp add: bus_ok_def sub_cap_def)
  then show ?thesis using b' assms(2) by (simp add: sub_chan.buf_send sub_cap_def)
qed

theorem Publish_delivers_witness:
  "\<exists>b'. Publish \<lparr>ev_Type = ''done'', ev_Repo = ''r'', ev_Stack = [], ev_Msg = ''m''\<rparr> (snd (Subscribe NewActivityBus)) = Some b'
     \<and> length (ch_buf (bus_chans b' ! 0)) \<le> 32
     \<and> ch_buf (bus_chans b' ! 0) = [\<lparr>ev_Type = ''done'', ev_Repo = ''r'', ev_Stack = [], ev_Msg = ''m''\<rparr>]"
proof -
  have "reach (\<lambda>b. b = NewActivityBus) bus_step (snd (Subscribe NewActivityBus))"
    by (rule reach_step [where s = NewActivityBus], rule reach_init, simp, rule b_subscribe)
  from Publish_delivers [OF this, of 0 "\<lparr>ev_Type = ''done'', ev_Repo = ''r'', ev_Stack = [], ev_Msg = ''m''\<rparr>"]
  show ?thesis by (simp add: Subscribe_def NewActivityBus_def)
qed

end
