(* ===== verification/Metrics.thy ===== *)
theory Metrics
  imports GoStrings
begin

text \<open>
  \<^verbatim>\<open>src/internal/metrics/metrics.go\<close>: the counters and gauges behind \<^verbatim>\<open>/metrics\<close> and the text they
  are rendered to. Counters keep their 64 bits. Sums of durations are real numbers: the rounding of
  \<^verbatim>\<open>float64\<close> is not modelled, and \<^verbatim>\<open>%.4f\<close> is an argument. The number of goroutines and of threads
  is the runtime's.
\<close>

section \<open>State and updates\<close>

record metrics =
  syncTotal :: "(string, (string, goint) gomap) gomap"
  applyTotal :: "(string, (string, goint) gomap) gomap"
  containersRunning :: "(string, goint) gomap"
  lastSyncTS :: "(string, int) gomap"
  syncDurationSum :: "(string, real) gomap"
  syncDurationCount :: "(string, goint) gomap"

definition no_metrics :: metrics where
  "no_metrics = \<lparr>syncTotal = [], applyTotal = [], containersRunning = [], lastSyncTS = [],
                 syncDurationSum = [], syncDurationCount = []\<rparr>"

definition bump :: "string \<Rightarrow> string \<Rightarrow> (string, (string, goint) gomap) gomap \<Rightarrow> (string, (string, goint) gomap) gomap" where
  "bump k status m = (let inner = mget0 [] m k in mput k (mput status (mget0 0 inner status + 1) inner) m)"

text \<open>Seconds since 1970 of an instant counted from the zero \<^verbatim>\<open>time.Time\<close>.\<close>

definition time_Unix :: "gotime \<Rightarrow> int" where
  "time_Unix t = t div 1000000000 - 62135596800"

definition duration_Seconds :: "duration \<Rightarrow> real" where
  "duration_Seconds d = of_int (sint d) / 1000000000"

definition RecordSync :: "string \<Rightarrow> string \<Rightarrow> duration \<Rightarrow> gotime \<Rightarrow> metrics \<Rightarrow> metrics" where
  "RecordSync repo status d now m =
     (let m1 = m\<lparr>syncTotal := bump repo status (syncTotal m)\<rparr> in
      if status = ''success'' then
        m1\<lparr>lastSyncTS := mput repo (time_Unix now) (lastSyncTS m1),
           syncDurationSum := mput repo (mget0 0 (syncDurationSum m1) repo + duration_Seconds d) (syncDurationSum m1),
           syncDurationCount := mput repo (mget0 0 (syncDurationCount m1) repo + 1) (syncDurationCount m1)\<rparr>
      else m1)"

definition RecordApply :: "string \<Rightarrow> string \<Rightarrow> metrics \<Rightarrow> metrics" where
  "RecordApply stack status m = m\<lparr>applyTotal := bump stack status (applyTotal m)\<rparr>"

definition SetContainersRunning :: "string \<Rightarrow> goint \<Rightarrow> metrics \<Rightarrow> metrics" where
  "SetContainersRunning repoStack n m = m\<lparr>containersRunning := mput repoStack n (containersRunning m)\<rparr>"

section \<open>Rendering\<close>

fun escapeLabel :: "string \<Rightarrow> string" where
  "escapeLabel [] = []"
| "escapeLabel (c # s) =
     (if byte c = 92 then [CHR 0x5C, CHR 0x5C]
      else if byte c = 34 then [CHR 0x5C, CHR 0x22]
      else if c = newline then [CHR 0x5C, CHR ''n'']
      else [c]) @ escapeLabel s"

definition label :: "string \<Rightarrow> string \<Rightarrow> string" where
  "label k v = k @ ''='' @ [CHR 0x22] @ escapeLabel v @ [CHR 0x22]"

definition sample :: "string \<Rightarrow> string list \<Rightarrow> string \<Rightarrow> string" where
  "sample name labels v = name @ ''{'' @ Join labels '','' @ ''} '' @ v @ [newline]"

definition header :: "string \<Rightarrow> string \<Rightarrow> string \<Rightarrow> string" where
  "header name help type = ''# HELP '' @ name @ '' '' @ help @ [newline] @ ''# TYPE '' @ name @ '' '' @ type @ [newline]"

text \<open>The visiting orders of the maps, the float format, and the two runtime gauges.\<close>

record metrics_runtime =
  mr_nested :: "(string \<times> (string, goint) gomap) list \<Rightarrow> (string \<times> (string, goint) gomap) list"
  mr_counts :: "(string \<times> goint) list \<Rightarrow> (string \<times> goint) list"
  mr_sums :: "(string \<times> real) list \<Rightarrow> (string \<times> real) list"
  mr_stamps :: "(string \<times> int) list \<Rightarrow> (string \<times> int) list"
  mr_float4 :: "real \<Rightarrow> string"
  mr_goroutines :: goint
  mr_threads :: goint

definition nested_samples :: "metrics_runtime \<Rightarrow> string \<Rightarrow> string \<Rightarrow> (string, (string, goint) gomap) gomap \<Rightarrow> string" where
  "nested_samples rt name key m =
     concat (map (\<lambda>(k, inner). concat (map (\<lambda>(status, n).
        sample name [label key k, label ''status'' status] (Itoa n)) (mr_counts rt inner))) (mr_nested rt m))"

definition metrics_Handler :: "metrics_runtime \<Rightarrow> metrics \<Rightarrow> string" where
  "metrics_Handler rt m =
     header ''stackd_sync_total'' ''Total repo sync attempts by status.'' ''counter''
     @ nested_samples rt ''stackd_sync_total'' ''repo'' (syncTotal m)
     @ header ''stackd_sync_duration_seconds'' ''Repo sync duration summary.'' ''summary''
     @ concat (map (\<lambda>(repo, sum).
          sample ''stackd_sync_duration_seconds_sum'' [label ''repo'' repo] (mr_float4 rt sum)
          @ sample ''stackd_sync_duration_seconds_count'' [label ''repo'' repo]
              (Itoa (mget0 0 (syncDurationCount m) repo))) (mr_sums rt (syncDurationSum m)))
     @ header ''stackd_stack_apply_total'' ''Total stack apply attempts by status.'' ''counter''
     @ nested_samples rt ''stackd_stack_apply_total'' ''stack'' (applyTotal m)
     @ header ''stackd_containers_running'' ''Running containers per stack.'' ''gauge''
     @ concat (map (\<lambda>(k, n). sample ''stackd_containers_running'' [label ''stack'' k] (Itoa n))
          (mr_counts rt (containersRunning m)))
     @ header ''stackd_last_sync_timestamp'' ''Unix timestamp of last successful sync.'' ''gauge''
     @ concat (map (\<lambda>(repo, ts). sample ''stackd_last_sync_timestamp'' [label ''repo'' repo] (show_int ts))
          (mr_stamps rt (lastSyncTS m)))
     @ header ''stackd_goroutines'' ''Number of goroutines currently in flight.'' ''gauge''
     @ ''stackd_goroutines '' @ Itoa (mr_goroutines rt) @ [newline]
     @ header ''stackd_threads''
         ''Number of OS threads created by the Go runtime (cumulative high-water mark).'' ''gauge''
     @ ''stackd_threads '' @ Itoa (mr_threads rt) @ [newline]"

section \<open>Labels\<close>

text \<open>How a scraper reads a label value: up to the first quote that is not escaped.\<close>

fun read_label :: "string \<Rightarrow> (string \<times> string) option" where
  "read_label [] = None"
| "read_label (c # s) =
     (if byte c = 34 then Some ([], s)
      else if byte c = 92 then
        (case s of
           [] \<Rightarrow> None
         | d # t \<Rightarrow>
             map_option (\<lambda>(v, r). ((if d = CHR ''n'' then newline else d) # v, r)) (read_label t))
      else map_option (\<lambda>(v, r). (c # v, r)) (read_label s))"

lemma read_label_escape: "read_label (escapeLabel v @ [CHR 0x22] @ r) = Some (v, r)"
proof (induction v)
  case Nil
  show ?case by (simp add: byte_def)
next
  case (Cons c v)
  have c: "c = CHR 0x5C" if "byte c = 92" using that byte_inject [of c "CHR 0x5C"] by (simp add: byte_def)
  have q: "c = CHR 0x22" if "byte c = 34" using that byte_inject [of c "CHR 0x22"] by (simp add: byte_def)
  show ?case using Cons c q by (auto simp: byte_def split: if_splits)
qed

lemma escapeLabel_no_newline: "newline \<notin> set (escapeLabel v)"
  by (induction v) auto

definition decode_label :: "string \<Rightarrow> string option" where
  "decode_label s = map_option fst (read_label (s @ [CHR 0x22]))"

interpretation label_codec: codec "\<lambda>_. True" escapeLabel decode_label
proof
  fix v :: string
  show "decode_label (escapeLabel v) = Some v"
    using read_label_escape [of v "[]"] by (simp add: decode_label_def)
qed

section \<open>Counts\<close>

definition counted :: "(string, (string, goint) gomap) gomap \<Rightarrow> string \<Rightarrow> string \<Rightarrow> goint" where
  "counted m k status = mget0 0 (mget0 [] m k) status"

lemma counted_bump [store_simps]:
  "counted (bump k st m) k' st' = counted m k' st' + (if k = k' \<and> st = st' then 1 else 0)"
  by (simp add: counted_def bump_def Let_def)

datatype metric_event = Synced string string duration gotime | Applied string string | Running string goint

fun record_event :: "metric_event \<Rightarrow> metrics \<Rightarrow> metrics" where
  "record_event (Synced r st d now) m = RecordSync r st d now m"
| "record_event (Applied s st) m = RecordApply s st m"
| "record_event (Running k n) m = SetContainersRunning k n m"

definition is_sync :: "string \<Rightarrow> string \<Rightarrow> metric_event \<Rightarrow> bool" where
  "is_sync r st e \<longleftrightarrow> (case e of Synced r' st' _ _ \<Rightarrow> r' = r \<and> st' = st | _ \<Rightarrow> False)"

definition is_apply :: "string \<Rightarrow> string \<Rightarrow> metric_event \<Rightarrow> bool" where
  "is_apply s st e \<longleftrightarrow> (case e of Applied s' st' \<Rightarrow> s' = s \<and> st' = st | _ \<Rightarrow> False)"

lemma record_event_counts:
  "counted (syncTotal (record_event e m)) r st = counted (syncTotal m) r st + (if is_sync r st e then 1 else 0)"
  "counted (applyTotal (record_event e m)) r st = counted (applyTotal m) r st + (if is_apply r st e then 1 else 0)"
  by (cases e; simp add: RecordSync_def RecordApply_def SetContainersRunning_def Let_def store_simps
      is_sync_def is_apply_def)+

section \<open>Properties\<close>

text \<open>
  Every finished sync and apply is counted exactly once, under its own repository or stack and
  its own status, whatever else is recorded in between (modulo the width of the counter).
\<close>

theorem metrics_count_events:
  "counted (syncTotal (fold record_event es no_metrics)) r st = of_nat (length (filter (is_sync r st) es))
   \<and> counted (applyTotal (fold record_event es no_metrics)) r st = of_nat (length (filter (is_apply r st) es))"
proof (induction es rule: rev_induct)
  case Nil
  show ?case by (simp add: no_metrics_def counted_def mget0_def)
next
  case (snoc e es)
  then show ?case by (simp add: record_event_counts)
qed


end
