(* ===== verification/Backoff.thy ===== *)
theory Backoff
  imports Database
begin

text \<open>
  The sync scheduler of \<^verbatim>\<open>src/main.go\<close>: the per-repository failure records
  (\<^verbatim>\<open>syncBackoff\<close> in the package variable \<^verbatim>\<open>repoBackoffs\<close>) and the due times
  (\<^verbatim>\<open>repoNextDue\<close>), with the functions that read and update them, and the resolution of a
  repository's interval. \<^verbatim>\<open>time.Now()\<close> is an argument. Every function takes the mutex of the
  record it touches for its whole body, so one call is one step.
\<close>

section \<open>State\<close>

record syncBackoff =
  failures :: nat
  nextAllowed :: gotime
  suspended :: bool

definition maxSyncFailures :: nat where
  "maxSyncFailures = 10"

definition new_backoff :: syncBackoff where
  "new_backoff = \<lparr>failures = 0, nextAllowed = zero_time, suspended = False\<rparr>"

record scheduler =
  repoBackoffs :: "(string, syncBackoff) gomap"
  repoNextDue :: "(string, gotime) gomap"

definition new_scheduler :: scheduler where
  "new_scheduler = \<lparr>repoBackoffs = [], repoNextDue = []\<rparr>"

section \<open>Backoff\<close>

text \<open>\<^verbatim>\<open>LoadOrStore\<close>: the record of a repository, created when it is not there.\<close>

definition getBackoff :: "string \<Rightarrow> scheduler \<Rightarrow> syncBackoff \<times> scheduler" where
  "getBackoff repo s = (case mget (repoBackoffs s) repo of
     Some b \<Rightarrow> (b, s)
   | None \<Rightarrow> (new_backoff, s\<lparr>repoBackoffs := mput repo new_backoff (repoBackoffs s)\<rparr>))"

text \<open>Writing through the pointer \<^verbatim>\<open>getBackoff\<close> returned.\<close>

definition set_backoff :: "string \<Rightarrow> syncBackoff \<Rightarrow> scheduler \<Rightarrow> scheduler" where
  "set_backoff repo b s = s\<lparr>repoBackoffs := mput repo b (repoBackoffs s)\<rparr>"

definition recordSyncSuccess :: "string \<Rightarrow> scheduler \<Rightarrow> scheduler" where
  "recordSyncSuccess repo s = (let (b, s1) = getBackoff repo s in
     set_backoff repo (b\<lparr>failures := 0, nextAllowed := zero_time, suspended := False\<rparr>) s1)"

definition backoff_delay :: "nat \<Rightarrow> duration \<Rightarrow> duration" where
  "backoff_delay n baseInterval = (let multiplier = push_bit n 1; backoff = multiplier * baseInterval;
     maxBackoff = 8 * baseInterval in
     if sgt backoff maxBackoff then maxBackoff else backoff)"

definition recordSyncFailure :: "string \<Rightarrow> duration \<Rightarrow> gotime \<Rightarrow> scheduler \<Rightarrow> bool \<times> scheduler" where
  "recordSyncFailure repo baseInterval now s = (let (b, s1) = getBackoff repo s;
     b1 = b\<lparr>failures := failures b + 1\<rparr> in
     if failures b1 \<ge> maxSyncFailures then (True, set_backoff repo (b1\<lparr>suspended := True\<rparr>) s1)
     else (False, set_backoff repo
            (b1\<lparr>nextAllowed := time_Add now (backoff_delay (failures b1) baseInterval)\<rparr>) s1))"

definition shouldSkipSync :: "string \<Rightarrow> gotime \<Rightarrow> scheduler \<Rightarrow> bool \<times> scheduler" where
  "shouldSkipSync repo now s = (let (b, s1) = getBackoff repo s in
     (suspended b \<or> (\<not> IsZero (nextAllowed b) \<and> now < nextAllowed b), s1))"

definition resetBackoff :: "string \<Rightarrow> scheduler \<Rightarrow> scheduler" where
  "resetBackoff repo s = (let (b, s1) = getBackoff repo s in
     set_backoff repo (b\<lparr>failures := 0, nextAllowed := zero_time, suspended := False\<rparr>) s1)"

section \<open>Intervals\<close>

definition dueForSync :: "string \<Rightarrow> gotime \<Rightarrow> scheduler \<Rightarrow> bool" where
  "dueForSync repo now s = (case mget (repoNextDue s) repo of None \<Rightarrow> True | Some t \<Rightarrow> \<not> now < t)"

definition markScheduled :: "string \<Rightarrow> duration \<Rightarrow> gotime \<Rightarrow> scheduler \<Rightarrow> scheduler" where
  "markScheduled repo interval now s =
     (let interval' = (if sint interval \<le> 0 then 60 * Second else interval) in
      s\<lparr>repoNextDue := mput repo (time_Add now interval') (repoNextDue s)\<rparr>)"

definition effectiveInterval :: "RepoDB \<Rightarrow> duration \<Rightarrow> duration" where
  "effectiveInterval repo defaultInterval =
     (if sint (rdb_SyncInterval repo) > 0 then rdb_SyncInterval repo * Second
      else if sint defaultInterval > 0 then defaultInterval else 60 * Second)"

definition loadDefaultInterval :: "database \<Rightarrow> duration \<times> database" where
  "loadDefaultInterval d = (let (res, d1) = GetSetting ''default_sync_interval'' d in
     (case res of
        Inr (val, _) \<Rightarrow>
          (if val \<noteq> [] then
             (case Atoi val of
                Some n \<Rightarrow> if sint n > 0 then n * Second else 60 * Second
              | None \<Rightarrow> 60 * Second)
           else 60 * Second)
      | Inl _ \<Rightarrow> 60 * Second, d1))"

section \<open>The table is a store of independent records\<close>

definition backoff_of :: "scheduler \<Rightarrow> string \<Rightarrow> syncBackoff" where
  "backoff_of s repo = mget0 new_backoff (repoBackoffs s) repo"

lemma getBackoff_fst [store_simps]: "fst (getBackoff repo s) = backoff_of s repo"
  by (simp add: getBackoff_def backoff_of_def mget0_def split: option.splits)

lemma getBackoff_reads [store_simps]: "backoff_of (snd (getBackoff repo s)) r = backoff_of s r"
  by (simp add: getBackoff_def backoff_of_def mget0_def split: option.splits)

lemma getBackoff_due [frame_simps]: "repoNextDue (snd (getBackoff repo s)) = repoNextDue s"
  by (simp add: getBackoff_def split: option.splits)

lemma set_backoff_reads [store_simps]:
  "backoff_of (set_backoff repo b s) r = (if r = repo then b else backoff_of s r)"
  by (simp add: set_backoff_def backoff_of_def)

lemma set_backoff_due [frame_simps]: "repoNextDue (set_backoff repo b s) = repoNextDue s"
  by (simp add: set_backoff_def)

lemma backoff_of_new [store_simps]: "backoff_of new_scheduler r = new_backoff"
  by (simp add: backoff_of_def new_scheduler_def mget0_def)

definition get_record :: "scheduler \<Rightarrow> string \<Rightarrow> syncBackoff option" where
  "get_record s repo = mget (repoBackoffs s) repo"

interpretation backoffs: keyed_store get_record set_backoff
  by unfold_locales (simp_all add: get_record_def set_backoff_def)

lemma backoff_of_recordSyncSuccess [store_simps]:
  "backoff_of (recordSyncSuccess repo s) r = (if r = repo then new_backoff else backoff_of s r)"
  by (simp add: recordSyncSuccess_def split_def store_simps new_backoff_def)

lemma backoff_of_resetBackoff [store_simps]:
  "backoff_of (resetBackoff repo s) r = (if r = repo then new_backoff else backoff_of s r)"
  by (simp add: resetBackoff_def split_def store_simps new_backoff_def)

lemma backoff_of_shouldSkipSync [store_simps]:
  "backoff_of (snd (shouldSkipSync repo now s)) r = backoff_of s r"
  by (simp add: shouldSkipSync_def split_def store_simps)

lemma backoff_of_markScheduled [store_simps]: "backoff_of (markScheduled repo i now s) r = backoff_of s r"
  by (simp add: markScheduled_def backoff_of_def Let_def)

text \<open>What one more failure makes of a record.\<close>

definition fail_record :: "duration \<Rightarrow> gotime \<Rightarrow> syncBackoff \<Rightarrow> syncBackoff" where
  "fail_record base now b =
     (if Suc (failures b) \<ge> maxSyncFailures then b\<lparr>failures := Suc (failures b), suspended := True\<rparr>
      else b\<lparr>failures := Suc (failures b),
             nextAllowed := time_Add now (backoff_delay (Suc (failures b)) base)\<rparr>)"

lemma backoff_of_recordSyncFailure [store_simps]:
  "backoff_of (snd (recordSyncFailure repo base now s)) r
     = (if r = repo then fail_record base now (backoff_of s r) else backoff_of s r)"
  by (simp add: recordSyncFailure_def split_def Let_def store_simps fail_record_def)

lemma recordSyncFailure_result:
  "fst (recordSyncFailure repo base now s) \<longleftrightarrow> Suc (failures (backoff_of s repo)) \<ge> maxSyncFailures"
  by (simp add: recordSyncFailure_def split_def Let_def store_simps)

lemma shouldSkipSync_result:
  "fst (shouldSkipSync repo now s) \<longleftrightarrow> suspended (backoff_of s repo) \<or>
     (\<not> IsZero (nextAllowed (backoff_of s repo)) \<and> now < nextAllowed (backoff_of s repo))"
  by (simp add: shouldSkipSync_def split_def store_simps)

section \<open>Histories\<close>

text \<open>
  The calls the daemon makes on the scheduler, in the order the mutexes serialise them:
  scheduled rounds, manual triggers and \<^verbatim>\<open>onApply\<close> callbacks interleave freely.
\<close>

datatype sched_event =
    SyncSucceeded string
  | SyncFailed string duration gotime
  | ManualReset string
  | AskedSkip string gotime
  | Scheduled string duration gotime

fun sched_step :: "sched_event \<Rightarrow> scheduler \<Rightarrow> scheduler" where
  "sched_step (SyncSucceeded r) s = recordSyncSuccess r s"
| "sched_step (SyncFailed r base now) s = snd (recordSyncFailure r base now s)"
| "sched_step (ManualReset r) s = resetBackoff r s"
| "sched_step (AskedSkip r now) s = snd (shouldSkipSync r now s)"
| "sched_step (Scheduled r i now) s = markScheduled r i now s"

definition sched_run :: "sched_event list \<Rightarrow> scheduler \<Rightarrow> scheduler" where
  "sched_run es s = fold sched_step es s"

text \<open>
  The specification reads the history backwards: the failures of a repository since its last
  success or manual reset, the most recent one first.
\<close>

fun recent_failures :: "string \<Rightarrow> sched_event list \<Rightarrow> (duration \<times> gotime) list" where
  "recent_failures r [] = []"
| "recent_failures r (SyncSucceeded r' # es) = (if r' = r then [] else recent_failures r es)"
| "recent_failures r (ManualReset r' # es) = (if r' = r then [] else recent_failures r es)"
| "recent_failures r (SyncFailed r' base now # es) =
     (if r' = r then (base, now) # recent_failures r es else recent_failures r es)"
| "recent_failures r (AskedSkip r' now # es) = recent_failures r es"
| "recent_failures r (Scheduled r' i now # es) = recent_failures r es"

fun record_after :: "(duration \<times> gotime) list \<Rightarrow> syncBackoff" where
  "record_after [] = new_backoff"
| "record_after ((base, now) # fs) = fail_record base now (record_after fs)"

lemma sched_run_snoc: "sched_run (es @ [e]) s = sched_step e (sched_run es s)"
  by (simp add: sched_run_def)

lemma backoff_of_run:
  "backoff_of (sched_run es new_scheduler) r = record_after (recent_failures r (rev es))"
proof (induction es rule: rev_induct)
  case Nil
  show ?case by (simp add: sched_run_def store_simps)
next
  case (snoc e es)
  then show ?case
    by (cases e) (auto simp: sched_run_snoc store_simps)
qed

lemma record_after_failures [simp]: "failures (record_after fs) = length fs"
  by (induction fs rule: record_after.induct) (simp_all add: new_backoff_def fail_record_def)

lemma record_after_suspended [simp]: "suspended (record_after fs) \<longleftrightarrow> length fs \<ge> maxSyncFailures"
  by (induction fs rule: record_after.induct)
    (auto simp: new_backoff_def fail_record_def maxSyncFailures_def)

lemma record_after_nextAllowed:
  "length fs < maxSyncFailures \<Longrightarrow> nextAllowed (record_after fs) =
     (case fs of [] \<Rightarrow> zero_time | (base, now) # _ \<Rightarrow> time_Add now (backoff_delay (length fs) base))"
  by (cases fs rule: record_after.cases) (simp_all add: new_backoff_def fail_record_def)

section \<open>Delays\<close>

lemma sint_power_mult:
  fixes base :: "64 word"
  assumes "0 < sint base" "512 * sint base < 2 ^ 63" "n < 10"
  shows "sint (2 ^ n * base) = 2 ^ n * sint base"
proof -
  have n: "(2::int) ^ n \<le> 512" using power_increasing [of n 9 "2::int"] assms(3) by simp
  have p: "sint (2 ^ n :: 64 word) = 2 ^ n"
    using sint_of_nat_small [of "2 ^ n"] assms(3) power_strict_increasing [of n 63 "2::nat"]
    by simp
  have "2 ^ n * sint base \<le> 512 * sint base"
    using n assms(1) by (intro mult_right_mono) simp_all
  moreover have "0 \<le> 2 ^ n * sint base" using assms(1) by simp
  ultimately show ?thesis using assms(2) by (simp add: sint_mult_fits p)
qed

text \<open>
  A base interval of less than 208 days (\<open>512 * base < 2 ^ 63\<close> nanoseconds) keeps the product
  in range for every failure count that is multiplied.
\<close>

lemma backoff_delay_fits:
  assumes "0 < sint base" "512 * sint base < 2 ^ 63" "0 < n" "n < maxSyncFailures"
  shows "sint (backoff_delay n base) = min (2 ^ n) 8 * sint base"
proof -
  have n10: "n < 10" using assms by (simp add: maxSyncFailures_def)
  have pw: "push_bit n (1 :: 64 word) = 2 ^ n" by (simp add: push_bit_eq_mult)
  have eight: "sint (8 * base) = 8 * sint base"
    using sint_power_mult [of base 3] assms by simp
  have delay: "sint (2 ^ n * base) = 2 ^ n * sint base"
    using sint_power_mult assms n10 by blast
  have "(2 ^ n > (8::int)) = (n > 3)"
    using power_strict_increasing_iff [of "2::int" 3 n] by simp
  then show ?thesis
    using assms(1) delay eight by (auto simp: backoff_delay_def sgt_def pw Let_def min_def)
qed

lemma backoff_delay_positive:
  assumes "0 < sint base" "512 * sint base < 2 ^ 63" "0 < n" "n < maxSyncFailures"
  shows "0 < sint (backoff_delay n base)"
proof -
  have "(0::int) < min (2 ^ n) 8" by simp
  then show ?thesis using backoff_delay_fits [OF assms] assms(1) by (simp only: zero_less_mult_iff) simp
qed

section \<open>Properties\<close>

text \<open>
  C10. For every interleaving of syncs, failures, manual resets and rounds, over any number of
  repositories, the answer of \<^verbatim>\<open>shouldSkipSync\<close> is the one the repository's own history gives: it
  is skipped when it failed ten times or more since its last success or manual reset, and
  otherwise while the delay that its latest failure set has not passed. What happens to other
  repositories never matters.
\<close>

theorem shouldSkipSync_history:
  "fst (shouldSkipSync r now (sched_run es new_scheduler)) =
     (let fs = recent_failures r (rev es) in
      length fs \<ge> maxSyncFailures \<or>
      (case fs of [] \<Rightarrow> False
       | (base, t) # _ \<Rightarrow> (let allowed = time_Add t (backoff_delay (length fs) base) in
            \<not> IsZero allowed \<and> now < allowed)))"
proof (cases "length (recent_failures r (rev es)) \<ge> maxSyncFailures")
  case True
  then show ?thesis by (simp add: shouldSkipSync_result backoff_of_run)
next
  case False
  then show ?thesis
    by (auto simp: shouldSkipSync_result backoff_of_run record_after_nextAllowed Let_def not_le
        simp del: record_after.simps split: list.splits)
qed

text \<open>
  The delay after the \<open>n\<close>-th failure in a row, below the suspension limit and for a base
  interval that does not overflow, is exactly \<open>min (2 ^ n) 8\<close> intervals: two, four and then
  eight base intervals from the failure, to the nanosecond.
\<close>

theorem backoff_window:
  assumes "recent_failures r (rev es) = (base, t) # fs" and "Suc (length fs) < maxSyncFailures"
    and "0 < sint base" and "512 * sint base < 2 ^ 63" and "0 \<le> t"
  shows "fst (shouldSkipSync r now (sched_run es new_scheduler))
     \<longleftrightarrow> now < t + min (2 ^ Suc (length fs)) 8 * sint base"
proof -
  have pos: "0 < sint (backoff_delay (Suc (length fs)) base)"
    using assms by (intro backoff_delay_positive) simp_all
  have delay: "sint (backoff_delay (Suc (length fs)) base) = min (2 ^ Suc (length fs)) 8 * sint base"
    using assms by (intro backoff_delay_fits) simp_all
  have "nextAllowed (record_after ((base, t) # fs)) = t + min (2 ^ Suc (length fs)) 8 * sint base"
    using assms(2) by (simp add: record_after_nextAllowed time_Add_def delay del: power_Suc record_after.simps)
  moreover have "t + min (2 ^ Suc (length fs)) 8 * sint base > 0"
    using pos assms(5) unfolding delay by linarith
  ultimately show ?thesis
    using assms(1,2)
    by (simp add: shouldSkipSync_result backoff_of_run IsZero_def del: power_Suc record_after.simps)
qed

theorem backoff_window_witness:
  "fst (shouldSkipSync ''a'' 130000000000 (sched_run
      [SyncFailed ''a'' (60 * Second) 0, SyncSucceeded ''b'', SyncFailed ''b'' Second 7] new_scheduler)) = False
   \<and> fst (shouldSkipSync ''a'' 110000000000 (sched_run
      [SyncFailed ''a'' (60 * Second) 0, SyncSucceeded ''b'', SyncFailed ''b'' Second 7] new_scheduler)) = True"
proof -
  let ?es = "[SyncFailed ''a'' (60 * Second) 0, SyncSucceeded ''b'', SyncFailed ''b'' Second 7]"
  have b: "sint (60 * Second) = 60000000000" by (simp add: Second_def)
  have h: "recent_failures ''a'' (rev ?es) = (60 * Second, 0) # []" by simp
  have w: "fst (shouldSkipSync ''a'' now (sched_run ?es new_scheduler)) \<longleftrightarrow> now < 120000000000" for now
    using backoff_window [OF h, of now] by (simp add: b maxSyncFailures_def)
  show ?thesis by (simp only: w) simp
qed

text \<open>
  The tenth failure in a row suspends the repository (and is the one reported as such); it
  stays suspended at every later instant, until a success or a manual reset of that same
  repository, after which it may sync at once.
\<close>

theorem suspension_until_reset:
  assumes "length (recent_failures r (rev es)) = 9"
    and "e = SyncSucceeded r \<or> e = ManualReset r"
  shows "fst (recordSyncFailure r base now (sched_run es new_scheduler))
    \<and> fst (shouldSkipSync r now' (sched_run (es @ [SyncFailed r base now]) new_scheduler))
    \<and> \<not> fst (shouldSkipSync r now' (sched_run (es @ [SyncFailed r base now, e]) new_scheduler))"
proof -
  have "fst (recordSyncFailure r base now (sched_run es new_scheduler))"
    using assms(1) by (simp add: recordSyncFailure_result backoff_of_run maxSyncFailures_def)
  moreover have "fst (shouldSkipSync r now' (sched_run (es @ [SyncFailed r base now]) new_scheduler))"
    using assms(1) by (simp add: shouldSkipSync_result backoff_of_run maxSyncFailures_def del: record_after.simps)
  moreover have "\<not> fst (shouldSkipSync r now' (sched_run (es @ [SyncFailed r base now, e]) new_scheduler))"
    using assms(2) by (auto simp: shouldSkipSync_result backoff_of_run new_backoff_def maxSyncFailures_def)
  ultimately show ?thesis by blast
qed

theorem suspension_until_reset_witness:
  "let es = SyncFailed ''b'' Second 1 # replicate 9 (SyncFailed ''a'' Second 5) in
   fst (recordSyncFailure ''a'' Second 6 (sched_run es new_scheduler))
   \<and> fst (shouldSkipSync ''a'' 999 (sched_run (es @ [SyncFailed ''a'' Second 6]) new_scheduler))
   \<and> \<not> fst (shouldSkipSync ''a'' 999
        (sched_run (es @ [SyncFailed ''a'' Second 6, ManualReset ''a'']) new_scheduler))"
proof -
  let ?es = "SyncFailed ''b'' Second 1 # replicate 9 (SyncFailed ''a'' Second 5)"
  have "length (recent_failures ''a'' (rev ?es)) = 9" by code_simp
  from suspension_until_reset [OF this, of "ManualReset ''a''" Second 6 999] show ?thesis
    by (simp only: Let_def) blast
qed

text \<open>
  A repository is due exactly when its own schedule says so: after \<^verbatim>\<open>markScheduled\<close> it is not
  due before one interval (sixty seconds when the interval is not positive) has passed and due from
  then on, and the due time of every other repository is untouched.
\<close>

theorem dueForSync_markScheduled:
  "dueForSync r t (markScheduled r' i now s) =
     (if r = r' then t \<ge> now + (if sint i \<le> 0 then 60000000000 else sint i) else dueForSync r t s)"
  by (auto simp: dueForSync_def markScheduled_def time_Add_def Second_def Let_def)

text \<open>
  The configured default interval takes effect: after an administrator saves \<open>n\<close> seconds
  (positive, and below the 292 years a duration can hold), a repository without an interval of its
  own syncs every \<open>n\<close> seconds, and a repository with a positive interval of its own keeps it.
\<close>

theorem default_interval_takes_effect:
  assumes "faults d = []" and "0 < sint n" and "sint n \<le> 9223372036"
    and "sint (rdb_SyncInterval repo) \<le> 9223372036"
  shows "sint (effectiveInterval repo (fst (loadDefaultInterval
            (snd (SetSetting dt now ''default_sync_interval'' (Itoa n) d))))) =
     (if sint (rdb_SyncInterval repo) > 0 then sint (rdb_SyncInterval repo) else sint n) * 1000000000"
proof -
  have sec: "sint (w * Second) = sint w * 1000000000" if "0 < sint w" "sint w \<le> 9223372036" for w
    using that sint_mult_fits [of w Second] by (simp add: Second_def)
  have ne: "Itoa n \<noteq> []" using Atoi_Itoa [of n] by (auto simp: Atoi_def)
  have "fst (GetSetting ''default_sync_interval''
          (snd (SetSetting dt now ''default_sync_interval'' (Itoa n) d))) = Inr (Itoa n, b)"
    if "b = (case find_setting (db_settings d) ''default_sync_interval'' of
               None \<Rightarrow> ''default_sync_interval'' \<in> set sensitiveKeys | Some r \<Rightarrow> set_sensitive r \<noteq> 0)" for b
    using assms(1) that
    by (auto simp: SetSetting_ok GetSetting_ok find_upsert null_String_def split: option.splits)
  then have "fst (loadDefaultInterval (snd (SetSetting dt now ''default_sync_interval'' (Itoa n) d))) = n * Second"
    using ne assms(2) by (auto simp: loadDefaultInterval_def split_def Atoi_Itoa)
  then show ?thesis
    using assms sec by (auto simp: effectiveInterval_def)
qed

theorem default_interval_takes_effect_witness:
  "sint (effectiveInterval (demo_repo\<lparr>rdb_SyncInterval := 0\<rparr>) (fst (loadDefaultInterval
      (snd (SetSetting demo_dt 7 ''default_sync_interval'' (Itoa 90) (fresh_database [])))))) = 90000000000"
  using default_interval_takes_effect [of "fresh_database []" 90 "demo_repo\<lparr>rdb_SyncInterval := 0\<rparr>" demo_dt 7]
  by (simp add: fresh_database_def)

text \<open>
  C34. The interval arithmetic has no overflow check. A repository saved with a sync interval of
  1152921505 seconds (the API only rejects negative values) has a positive interval, but eight
  times that interval wraps to a negative duration, the cap replaces the delay by it, and the
  repository is never in backoff after a first failure: it is retried on every round.
\<close>

theorem backoff_overflow:
  "0 < sint (effectiveInterval (repo\<lparr>rdb_SyncInterval := 1152921505\<rparr>) i)
   \<and> \<not> fst (shouldSkipSync r now (snd (recordSyncFailure r
          (effectiveInterval (repo\<lparr>rdb_SyncInterval := 1152921505\<rparr>) i) now new_scheduler)))"
proof -
  have e: "effectiveInterval (repo\<lparr>rdb_SyncInterval := 1152921505\<rparr>) i = 1152921505000000000"
    by (simp add: effectiveInterval_def Second_def)
  have d: "sint (backoff_delay 1 1152921505000000000) < 0"
    by (simp add: backoff_delay_def sgt_def)
  show ?thesis unfolding e
    using d by (auto simp: shouldSkipSync_result store_simps fail_record_def new_backoff_def
        maxSyncFailures_def time_Add_def)
qed

end
