(* ===== verification/Docker.thy ===== *)
theory Docker
  imports Host State_Store
begin

text \<open>
  \<^verbatim>\<open>src/internal/docker/\<close>: the container details shown on the dashboard, with their environment
  masked; container control; the shell probe of an exec session; and the holder that publishes
  the current client. The Docker engine is third-party: its API is an argument \<open>api\<close>, a record of
  functions that may look at and change the world. \<^verbatim>\<open>docker.ContainerDetail\<close> and
  \<^verbatim>\<open>state.ContainerDetail\<close> have the same fields and are one record here.
\<close>

section \<open>The engine's API\<close>

record container_summary =
  cs_ID :: string
  cs_Names :: "string list"
  cs_Image :: string
  cs_State :: string

text \<open>A published port: number, protocol, and the host ports it is bound to.\<close>

type_synonym port_map = "((nat \<times> string) \<times> string list) list"

record container_inspect =
  ci_StartedAt :: "string option"
  ci_Env :: "string list option"
  ci_Ports :: "port_map option"

record 'w docker_api =
  da_New :: "'w \<Rightarrow> nat option \<times> 'w"
  da_Close :: "nat \<Rightarrow> 'w \<Rightarrow> 'w"
  da_List :: "string \<Rightarrow> string \<Rightarrow> 'w \<Rightarrow> (string + container_summary list) \<times> 'w"
  da_Inspect :: "string \<Rightarrow> 'w \<Rightarrow> container_inspect option \<times> 'w"
  da_Start :: "string \<Rightarrow> 'w \<Rightarrow> string option \<times> 'w"
  da_Stop :: "string \<Rightarrow> 'w \<Rightarrow> string option \<times> 'w"
  da_Restart :: "string \<Rightarrow> 'w \<Rightarrow> string option \<times> 'w"
  da_ExecCreate :: "string \<Rightarrow> string list \<Rightarrow> bool \<Rightarrow> 'w \<Rightarrow> (string + string) \<times> 'w"
  da_ExecStart :: "string \<Rightarrow> 'w \<Rightarrow> string option \<times> 'w"
  da_ExecInspect :: "string \<Rightarrow> 'w \<Rightarrow> int option \<times> 'w"
  da_ExecAttach :: "string \<Rightarrow> 'w \<Rightarrow> string option \<times> 'w"
  da_ExecResize :: "string \<Rightarrow> nat \<Rightarrow> nat \<Rightarrow> 'w \<Rightarrow> string option \<times> 'w"
  da_Logs :: "string \<Rightarrow> 'w \<Rightarrow> (string + string list \<times> string option) \<times> 'w"
  da_ctx_done :: "'w \<Rightarrow> bool"
  da_ParseTime :: "string \<Rightarrow> gotime option"
  da_ports_order :: "port_map \<Rightarrow> port_map"

text \<open>One call to the engine.\<close>

definition api_call :: "('w \<Rightarrow> 'a \<times> 'w) \<Rightarrow> ('w, 'z) machine_scheme \<Rightarrow> 'a \<times> ('w, 'z) machine_scheme" where
  "api_call f m = (let (a, w) = f (world m) in (a, m\<lparr>world := w\<rparr>))"

lemma api_call_frames [frame_simps]:
  "ran (snd (api_call f m)) = ran m" "machine.more (snd (api_call f m)) = machine.more m"
  by (simp_all add: api_call_def split_def Let_def)

section \<open>The client holder\<close>

text \<open>\<open>None\<close> is a nil holder; otherwise the current client, if there is one.\<close>

type_synonym client = nat
type_synonym ClientHolder = "client option option"

definition NewHolder :: "client option \<Rightarrow> ClientHolder" where
  "NewHolder c = Some (case c of None \<Rightarrow> None | Some c' \<Rightarrow> Some c')"

definition holder_Get :: "ClientHolder \<Rightarrow> client option" where
  "holder_Get h = (case h of None \<Rightarrow> None | Some p \<Rightarrow> p)"

definition holder_Set :: "client option \<Rightarrow> ClientHolder \<Rightarrow> ClientHolder" where
  "holder_Set c h = (case h of None \<Rightarrow> None | Some _ \<Rightarrow> Some c)"

definition CompareAndSwap :: "client option \<Rightarrow> client option \<Rightarrow> ClientHolder \<Rightarrow> bool \<times> ClientHolder" where
  "CompareAndSwap old new h =
     (case h of None \<Rightarrow> (False, None) | Some p \<Rightarrow> if p = old then (True, Some new) else (False, Some p))"

section \<open>Masking\<close>

definition sensitiveEnvKeys :: "string list" where
  "sensitiveEnvKeys = [''TOKEN'', ''SECRET'', ''KEY'', ''PASSWORD'', ''PASS'', ''CREDENTIAL'',
     ''DATABASE_URL'', ''DB_URL'', ''DSN'', ''REDIS_URL'']"

text \<open>
  The expression \<^verbatim>\<open>[a-zA-Z][a-zA-Z0-9+.\-]*://[^\s/@]+:[^\s/@]*@\<close>, searched in one pass: the
  flag tells whether the run of scheme characters before the position holds a letter.
\<close>

definition re_letter :: "char \<Rightarrow> bool" where
  "re_letter c \<longleftrightarrow> is_upper c \<or> is_lower c"

definition re_scheme :: "char \<Rightarrow> bool" where
  "re_scheme c \<longleftrightarrow> is_alnum c \<or> c = CHR ''+'' \<or> c = CHR ''.'' \<or> c = CHR ''-''"

definition re_userinfo :: "char \<Rightarrow> bool" where
  "re_userinfo c \<longleftrightarrow> \<not> re_space c \<and> c \<noteq> CHR ''/'' \<and> c \<noteq> CHR ''@''"

definition userinfo_at :: "string \<Rightarrow> bool" where
  "userinfo_at s \<longleftrightarrow> HasPrefix s ''://'' \<and>
     (CHR '':'' \<in> set (drop 1 (takeWhile re_userinfo (drop 3 s)))
      \<and> HasPrefix (dropWhile re_userinfo (drop 3 s)) ''@'')"

fun search_userinfo :: "bool \<Rightarrow> string \<Rightarrow> bool" where
  "search_userinfo l [] = False"
| "search_userinfo l (c # s) =
     ((l \<and> userinfo_at (c # s)) \<or> search_userinfo (re_letter c \<or> (re_scheme c \<and> l)) s)"

definition userinfoURL :: "string \<Rightarrow> bool" where
  "userinfoURL s = search_userinfo False s"

definition env_masked :: "unicode_tables \<Rightarrow> string \<Rightarrow> string \<Rightarrow> bool" where
  "env_masked ut key val \<longleftrightarrow> list_ex (Contains (ToUpper ut key)) sensitiveEnvKeys \<or> userinfoURL val"

definition mask_env :: "unicode_tables \<Rightarrow> string \<Rightarrow> string" where
  "mask_env ut e =
     (case Index e ''='' of
        None \<Rightarrow> e
      | Some eq \<Rightarrow> (let key = take eq e; val = drop (eq + 1) e in
          if env_masked ut key val then key @ ''=[redacted]'' else e))"

definition maskEnvVars :: "unicode_tables \<Rightarrow> string list \<Rightarrow> string list" where
  "maskEnvVars ut envs = map (mask_env ut) envs"

section \<open>Names and ports\<close>

definition compose_name_byte :: "char \<Rightarrow> bool" where
  "compose_name_byte c \<longleftrightarrow> is_lower c \<or> is_digit c \<or> c = CHR ''_'' \<or> c = CHR ''-''"

definition composeProjectName :: "unicode_tables \<Rightarrow> string \<Rightarrow> string" where
  "composeProjectName ut stackDir =
     (let parts = Split (CHR ''/'') (TrimRight stackDir (CHR ''/'')) in
      filter compose_name_byte (ToLower ut (last parts)))"

definition formatPorts :: "port_map \<Rightarrow> string list" where
  "formatPorts ports =
     concat (map (\<lambda>((num, proto), bindings).
        map (\<lambda>b. b @ '':'' @ show_nat num @ ''/'' @ proto) (filter (\<lambda>b. b \<noteq> []) bindings)
        @ (if bindings = [] then [show_nat num @ ''/'' @ proto] else [])) ports)"

section \<open>Container details\<close>

definition detail_of :: "unicode_tables \<Rightarrow> 'w docker_api \<Rightarrow> container_summary \<Rightarrow> container_inspect option \<Rightarrow> ContainerDetail" where
  "detail_of ut api ct insp =
     (let d = \<lparr>ct_ID = take 12 (cs_ID ct),
               ct_Name = (case cs_Names ct of [] \<Rightarrow> [] | n # _ \<Rightarrow> TrimPrefix n ''/''),
               ct_Image = cs_Image ct, ct_Status = cs_State ct, ct_StartedAt = zero_time, ct_Env = [], ct_Ports = []\<rparr> in
      case insp of
        None \<Rightarrow> d
      | Some i \<Rightarrow> d\<lparr>ct_StartedAt := (case ci_StartedAt i of None \<Rightarrow> zero_time
                      | Some s \<Rightarrow> (case da_ParseTime api s of None \<Rightarrow> zero_time | Some t \<Rightarrow> t)),
                   ct_Env := (case ci_Env i of None \<Rightarrow> [] | Some e \<Rightarrow> maskEnvVars ut e),
                   ct_Ports := (case ci_Ports i of None \<Rightarrow> [] | Some p \<Rightarrow> formatPorts (da_ports_order api p))\<rparr>)"

fun collect_details ::
    "unicode_tables \<Rightarrow> 'w docker_api \<Rightarrow> container_summary list \<Rightarrow> ContainerDetail list \<Rightarrow> ('w, 'z) machine_scheme
       \<Rightarrow> (string + ContainerDetail list) \<times> ('w, 'z) machine_scheme" where
  "collect_details ut api [] acc m = (Inr acc, m)"
| "collect_details ut api (ct # cts) acc m =
     (if da_ctx_done api (world m) then (Inl ''context'', m)
      else (let (insp, m1) = api_call (da_Inspect api (cs_ID ct)) m in
            collect_details ut api cts (acc @ [detail_of ut api ct insp]) m1))"

definition ListStackContainerDetails ::
    "unicode_tables \<Rightarrow> 'w docker_api \<Rightarrow> string \<Rightarrow> ('w, 'z) machine_scheme
       \<Rightarrow> (string + ContainerDetail list) \<times> ('w, 'z) machine_scheme" where
  "ListStackContainerDetails ut api stackDir m =
     (let (res, m1) = api_call (da_List api ''label''
                        (''com.docker.compose.project='' @ composeProjectName ut stackDir)) m in
      case res of
        Inl e \<Rightarrow> (Inl (''list stack containers: '' @ e), m1)
      | Inr cts \<Rightarrow> collect_details ut api cts [] m1)"

definition ListStackContainers ::
    "unicode_tables \<Rightarrow> 'w docker_api \<Rightarrow> string \<Rightarrow> ('w, 'z) machine_scheme
       \<Rightarrow> (string + string list) \<times> ('w, 'z) machine_scheme" where
  "ListStackContainers ut api stackDir m =
     (let (res, m1) = api_call (da_List api ''label''
                        (''com.docker.compose.project='' @ composeProjectName ut stackDir)) m in
      (case res of
         Inl e \<Rightarrow> Inl (''list stack containers: '' @ e)
       | Inr cts \<Rightarrow> Inr (concat (map (\<lambda>ct. case cs_Names ct of [] \<Rightarrow> [] | n # _ \<Rightarrow> [TrimPrefix n ''/'']) cts)), m1))"

datatype ContainerStatus = StatusRunning | StatusStopped | StatusNotFound

fun first_named :: "string \<Rightarrow> container_summary list \<Rightarrow> ContainerStatus" where
  "first_named name [] = StatusNotFound"
| "first_named name (ct # cts) =
     (if list_ex (\<lambda>n. n = ''/'' @ name \<or> n = name) (cs_Names ct)
      then (if cs_State ct = ''running'' then StatusRunning else StatusStopped)
      else first_named name cts)"

definition GetContainerStatus ::
    "'w docker_api \<Rightarrow> string \<Rightarrow> ('w, 'z) machine_scheme \<Rightarrow> (string + ContainerStatus) \<times> ('w, 'z) machine_scheme" where
  "GetContainerStatus api name m =
     (let (res, m1) = api_call (da_List api ''name'' name) m in
      (case res of Inl e \<Rightarrow> Inl (''list containers: '' @ e) | Inr cts \<Rightarrow> Inr (first_named name cts), m1))"

section \<open>Control and exec\<close>

definition engine_action ::
    "string \<Rightarrow> (string \<Rightarrow> 'w \<Rightarrow> string option \<times> 'w) \<Rightarrow> string \<Rightarrow> ('w, 'z) machine_scheme
       \<Rightarrow> (string + unit) \<times> ('w, 'z) machine_scheme" where
  "engine_action what f name m =
     (let (e, m1) = api_call (f name) m in
      (case e of Some msg \<Rightarrow> Inl (what @ '' '' @ name @ '': '' @ msg) | None \<Rightarrow> Inr (), m1))"

definition StartContainer :: "'w docker_api \<Rightarrow> string \<Rightarrow> ('w, 'z) machine_scheme \<Rightarrow> (string + unit) \<times> ('w, 'z) machine_scheme" where
  "StartContainer api name m = engine_action ''StartContainer'' (da_Start api) name m"

definition StopContainer :: "'w docker_api \<Rightarrow> string \<Rightarrow> ('w, 'z) machine_scheme \<Rightarrow> (string + unit) \<times> ('w, 'z) machine_scheme" where
  "StopContainer api name m = engine_action ''StopContainer'' (da_Stop api) name m"

definition RestartContainer :: "'w docker_api \<Rightarrow> string \<Rightarrow> ('w, 'z) machine_scheme \<Rightarrow> (string + unit) \<times> ('w, 'z) machine_scheme" where
  "RestartContainer api name m = engine_action ''RestartContainer'' (da_Restart api) name m"

definition shell_candidates :: "string list" where
  "shell_candidates = [''/bin/bash'', ''/bin/sh'', ''/bin/ash'', ''/ash'', ''/busybox/sh'']"

text \<open>One probe: create, start, inspect; it succeeds when every call does and the exit code is 0.\<close>

definition probe_shell :: "'w docker_api \<Rightarrow> string \<Rightarrow> string \<Rightarrow> ('w, 'z) machine_scheme \<Rightarrow> bool \<times> ('w, 'z) machine_scheme" where
  "probe_shell api cid shell m =
     (let (probe, m1) = api_call (da_ExecCreate api cid [shell, ''-c'', ''exit 0''] False) m in
      case probe of
        Inl _ \<Rightarrow> (False, m1)
      | Inr eid \<Rightarrow>
          if eid = [] then (False, m1)
          else (let (started, m2) = api_call (da_ExecStart api eid) m1 in
                if started \<noteq> None then (False, m2)
                else (let (insp, m3) = api_call (da_ExecInspect api eid) m2 in (insp = Some 0, m3))))"

fun probe_shells :: "'w docker_api \<Rightarrow> string \<Rightarrow> string list \<Rightarrow> ('w, 'z) machine_scheme
    \<Rightarrow> (string + string) \<times> ('w, 'z) machine_scheme" where
  "probe_shells api cid [] m = (Inl (''no usable shell found in container '' @ cid), m)"
| "probe_shells api cid (sh # shs) m =
     (let (ok, m1) = probe_shell api cid sh m in if ok then (Inr sh, m1) else probe_shells api cid shs m1)"

definition detectShell :: "'w docker_api \<Rightarrow> string \<Rightarrow> ('w, 'z) machine_scheme \<Rightarrow> (string + string) \<times> ('w, 'z) machine_scheme" where
  "detectShell api cid m = probe_shells api cid shell_candidates m"

definition ExecInteractive :: "'w docker_api \<Rightarrow> string \<Rightarrow> ('w, 'z) machine_scheme \<Rightarrow> (string + string) \<times> ('w, 'z) machine_scheme" where
  "ExecInteractive api cid m =
     (let (sh, m1) = detectShell api cid m in
      case sh of
        Inl e \<Rightarrow> (Inl e, m1)
      | Inr shell \<Rightarrow>
          (let (ex, m2) = api_call (da_ExecCreate api cid [shell] True) m1 in
           case ex of
             Inl e \<Rightarrow> (Inl (''exec create '' @ cid @ '': '' @ e), m2)
           | Inr eid \<Rightarrow>
               (let (att, m3) = api_call (da_ExecAttach api eid) m2 in
                case att of
                  Some e \<Rightarrow> (Inl (''exec attach '' @ cid @ '': '' @ e), m3)
                | None \<Rightarrow> (Inr eid, m3))))"

text \<open>
  The pieces the engine's log stream delivers, in order, and the error it ended with; an error
  after the context was cancelled is not one.
\<close>

definition StreamLogs :: "'w docker_api \<Rightarrow> string \<Rightarrow> ('w, 'z) machine_scheme
    \<Rightarrow> (string list \<times> string option) \<times> ('w, 'z) machine_scheme" where
  "StreamLogs api name m =
     (let (res, m1) = api_call (da_Logs api name) m in
      (case res of
         Inl e \<Rightarrow> ([], Some (''container logs '' @ name @ '': '' @ e))
       | Inr (chunks, None) \<Rightarrow> (chunks, None)
       | Inr (chunks, Some e) \<Rightarrow>
           (chunks, if da_ctx_done api (world m1) then None else Some (''read logs: '' @ e)), m1))"

definition ExecResize :: "'w docker_api \<Rightarrow> string \<Rightarrow> nat \<Rightarrow> nat \<Rightarrow> ('w, 'z) machine_scheme \<Rightarrow> string option \<times> ('w, 'z) machine_scheme" where
  "ExecResize api eid height width m = api_call (da_ExecResize api eid height width) m"

section \<open>The one-pass search finds what the expression matches\<close>

definition userinfo_part :: "string \<Rightarrow> bool" where
  "userinfo_part s \<longleftrightarrow> (\<exists>u w b. s = ''://'' @ u @ '':'' @ w @ ''@'' @ b \<and> u \<noteq> []
     \<and> list_all re_userinfo u \<and> list_all re_userinfo w)"

definition url_with_userinfo :: "string \<Rightarrow> bool" where
  "url_with_userinfo s \<longleftrightarrow> (\<exists>a x p t. s = a @ x # p @ t \<and> re_letter x \<and> list_all re_scheme p \<and> userinfo_part t)"

lemma re_userinfo_delims [simp]: "re_userinfo (CHR '':'')" "\<not> re_userinfo (CHR ''@'')"
  by (simp_all add: re_userinfo_def re_space_def byte_def)

lemma userinfo_at_iff: "userinfo_at s \<longleftrightarrow> userinfo_part s"
proof
  assume s: "userinfo_at s"
  let ?r = "takeWhile re_userinfo (drop 3 s)"
  obtain t where t: "s = ''://'' @ t" using s by (auto simp: userinfo_at_def HasPrefix_append)
  have "CHR '':'' \<in> set (drop 1 ?r)" using s by (simp add: userinfo_at_def)
  then obtain x y where xy: "drop 1 ?r = x @ CHR '':'' # y" by (meson split_list)
  then obtain r0 where r: "?r = r0 # x @ CHR '':'' # y" by (cases ?r) auto
  obtain b where b: "dropWhile re_userinfo (drop 3 s) = CHR ''@'' # b"
    using s by (auto simp: userinfo_at_def HasPrefix_append)
  have "t = (r0 # x) @ '':'' @ y @ ''@'' @ b"
  proof -
    have "drop 3 s = (r0 # x @ CHR '':'' # y) @ CHR ''@'' # b"
      unfolding r [symmetric] b [symmetric] by (rule takeWhile_dropWhile_id [symmetric])
    then show ?thesis using t by simp
  qed
  moreover have "list_all re_userinfo ?r" by (auto simp: list_all_iff dest: set_takeWhileD)
  then have "list_all re_userinfo (r0 # x) \<and> list_all re_userinfo y" unfolding r by simp
  ultimately show "userinfo_part s" using t unfolding userinfo_part_def by blast
next
  assume "userinfo_part s"
  then obtain u w b where s: "s = ''://'' @ u @ '':'' @ w @ ''@'' @ b" "u \<noteq> []"
    "list_all re_userinfo u" "list_all re_userinfo w" by (auto simp: userinfo_part_def)
  have "takeWhile re_userinfo (drop 3 s) = u @ '':'' @ w" "dropWhile re_userinfo (drop 3 s) = ''@'' @ b"
    using s(3,4) by (simp_all add: s(1) takeWhile_append dropWhile_append list_all_iff)
  then show "userinfo_at s" using s(1,2) by (cases u) (auto simp: userinfo_at_def HasPrefix_def)
qed

lemma userinfo_part_Nil [simp]: "\<not> userinfo_part []"
  by (simp add: userinfo_part_def)

lemma search_userinfo_iff:
  "search_userinfo l s \<longleftrightarrow> (l \<and> (\<exists>p t. s = p @ t \<and> list_all re_scheme p \<and> userinfo_part t)) \<or> url_with_userinfo s"
proof (induction s arbitrary: l)
  case Nil
  show ?case by (simp add: url_with_userinfo_def)
next
  case (Cons c s)
  have url: "url_with_userinfo (c # s) \<longleftrightarrow> url_with_userinfo s
      \<or> (re_letter c \<and> (\<exists>p t. s = p @ t \<and> list_all re_scheme p \<and> userinfo_part t))" (is "_ \<longleftrightarrow> ?rhs")
  proof
    assume "url_with_userinfo (c # s)"
    then obtain a x p t where d: "c # s = a @ x # p @ t" "re_letter x" "list_all re_scheme p" "userinfo_part t"
      by (auto simp: url_with_userinfo_def)
    show ?rhs
    proof (cases a)
      case Nil
      then show ?thesis using d by auto
    next
      case (Cons a0 a')
      then have "s = a' @ x # p @ t" using d(1) by simp
      then show ?thesis using d(2-4) unfolding url_with_userinfo_def by blast
    qed
  next
    assume ?rhs
    then show "url_with_userinfo (c # s)"
    proof
      assume "url_with_userinfo s"
      then obtain a x p t where "s = a @ x # p @ t" "re_letter x" "list_all re_scheme p" "userinfo_part t"
        by (auto simp: url_with_userinfo_def)
      then have "c # s = (c # a) @ x # p @ t \<and> re_letter x \<and> list_all re_scheme p \<and> userinfo_part t" by simp
      then show ?thesis unfolding url_with_userinfo_def by blast
    next
      assume "re_letter c \<and> (\<exists>p t. s = p @ t \<and> list_all re_scheme p \<and> userinfo_part t)"
      then obtain p t where "c # s = [] @ c # p @ t \<and> re_letter c \<and> list_all re_scheme p \<and> userinfo_part t" by auto
      then show ?thesis unfolding url_with_userinfo_def by blast
    qed
  qed
  have run: "(\<exists>p t. c # s = p @ t \<and> list_all re_scheme p \<and> userinfo_part t) \<longleftrightarrow> userinfo_part (c # s)
      \<or> re_scheme c \<and> (\<exists>p t. s = p @ t \<and> list_all re_scheme p \<and> userinfo_part t)"
    (is "?l \<longleftrightarrow> ?r")
  proof
    assume ?l
    then obtain p t where "c # s = p @ t" "list_all re_scheme p" "userinfo_part t" by blast
    then show ?r by (cases p) auto
  next
    assume ?r
    then show ?l
    proof
      assume "userinfo_part (c # s)"
      then have "c # s = [] @ c # s \<and> list_all re_scheme [] \<and> userinfo_part (c # s)" by simp
      then show ?l by blast
    next
      assume "re_scheme c \<and> (\<exists>p t. s = p @ t \<and> list_all re_scheme p \<and> userinfo_part t)"
      then obtain p t where "c # s = (c # p) @ t \<and> list_all re_scheme (c # p) \<and> userinfo_part t" by auto
      then show ?l by blast
    qed
  qed
  show ?case
    using Cons.IH [of "re_letter c \<or> re_scheme c \<and> l"] url run by (auto simp: userinfo_at_iff)
qed

lemma userinfoURL_iff: "userinfoURL s \<longleftrightarrow> url_with_userinfo s"
  by (simp add: userinfoURL_def search_userinfo_iff)

lemma mask_env_pair:
  "CHR ''='' \<notin> set key \<Longrightarrow>
     mask_env ut (key @ CHR ''='' # val) = (if env_masked ut key val then key @ ''=[redacted]'' else key @ CHR ''='' # val)"
  by (simp add: mask_env_def Index_byte_append)

section \<open>Properties\<close>



end
