(* ===== verification/Deploy.thy ===== *)
theory Deploy
  imports Backoff Git Docker Metrics
begin

text \<open>
  Applying stacks (\<^verbatim>\<open>src/main.go\<close> from \<^verbatim>\<open>redactSecretEnv\<close> to \<^verbatim>\<open>runStacksSync\<close>): which command a
  stack is applied with and where the Infisical token goes, what is recorded of its outcome, and
  the refresh of container details. The daemon's state extends the machine by the components'
  states; \<open>pf\<close> bundles everything that is not code of the repository. The store and the bus are
  the ones \<^verbatim>\<open>main\<close> creates, so the nil checks on them are not modelled; the holder may be nil.
\<close>

section \<open>The daemon\<close>

record 'w platform =
  pf_os :: "'w os"
  pf_api :: "'w docker_api"
  pf_ut :: unicode_tables
  pf_dt :: datetime
  pf_aead :: aead
  pf_ip6 :: "string \<Rightarrow> bool"
  pf_orders :: map_orders
  pf_ctx_done :: "'w \<Rightarrow> bool"

record 'w daemon = "'w machine" +
  d_db :: database
  d_sched :: scheduler
  d_store :: Store
  d_bus :: ActivityBus
  d_metrics :: metrics
  d_holder :: ClientHolder

text \<open>\<^verbatim>\<open>bus.Publish\<close>; the panic branch is unreachable (\<^verbatim>\<open>Publish_delivers\<close> in \<^verbatim>\<open>State_Store\<close>).\<close>

definition publish :: "ActivityEvent \<Rightarrow> ('w, 'z) daemon_scheme \<Rightarrow> ('w, 'z) daemon_scheme" where
  "publish e d = d\<lparr>d_bus := (case Publish e (d_bus d) of Some b \<Rightarrow> b | None \<Rightarrow> d_bus d)\<rparr>"

definition event :: "string \<Rightarrow> string \<Rightarrow> string \<Rightarrow> string \<Rightarrow> ActivityEvent" where
  "event type repo stack msg = \<lparr>ev_Type = type, ev_Repo = repo, ev_Stack = stack, ev_Msg = msg\<rparr>"

definition on_store :: "(Store \<Rightarrow> Store) \<Rightarrow> ('w, 'z) daemon_scheme \<Rightarrow> ('w, 'z) daemon_scheme" where
  "on_store f d = d\<lparr>d_store := f (d_store d)\<rparr>"

definition on_metrics :: "(metrics \<Rightarrow> metrics) \<Rightarrow> ('w, 'z) daemon_scheme \<Rightarrow> ('w, 'z) daemon_scheme" where
  "on_metrics f d = d\<lparr>d_metrics := f (d_metrics d)\<rparr>"

section \<open>Text of errors and secrets\<close>

definition redactSecretEnv :: "unicode_tables \<Rightarrow> string \<Rightarrow> string \<Rightarrow> string" where
  "redactSecretEnv ut key value =
     (if list_ex (Contains (ToUpper ut key)) [''TOKEN'', ''SECRET'', ''KEY'', ''PASSWORD'', ''PASS'', ''CREDENTIAL'']
      then ''[redacted]'' else value)"

text \<open>One match of \<^verbatim>\<open>\x1b\[[0-9;]*[mGKHF]\<close>: what follows it.\<close>

definition ansi_match :: "string \<Rightarrow> string option" where
  "ansi_match s =
     (if HasPrefix s [CHR 0x1B, CHR 0x5B] then
        (case dropWhile (\<lambda>c. is_digit c \<or> c = CHR '';'') (drop 2 s) of
           [] \<Rightarrow> None
         | c # r \<Rightarrow> if c \<in> set ''mGKHF'' then Some r else None)
      else None)"

lemma ansi_match_shorter: "ansi_match s = Some r \<Longrightarrow> length r < length s"
proof -
  assume a: "ansi_match s = Some r"
  then obtain c where "dropWhile (\<lambda>c. is_digit c \<or> c = CHR '';'') (drop 2 s) = c # r"
    by (auto simp: ansi_match_def split: if_splits list.splits)
  then show ?thesis using length_dropWhile_le [of "\<lambda>c. is_digit c \<or> c = CHR '';''" "drop 2 s"] by simp
qed

function strip_ansi :: "string \<Rightarrow> string" where
  "strip_ansi s =
     (case ansi_match s of
        Some r \<Rightarrow> strip_ansi r
      | None \<Rightarrow> (case s of [] \<Rightarrow> [] | c # cs \<Rightarrow> c # strip_ansi cs))"
  by pat_completeness auto
termination
  by (relation "measure length") (auto dest: ansi_match_shorter)

declare strip_ansi.simps [simp del]

definition meaningful_lines :: "string \<Rightarrow> string list" where
  "meaningful_lines output = filter (\<lambda>l. l \<noteq> []) (map TrimSpace (Split newline (strip_ansi output)))"

definition extractErrorSummary :: "string \<Rightarrow> string \<Rightarrow> string" where
  "extractErrorSummary output fallback =
     (let ls = meaningful_lines output in
      if ls = [] then fallback else Join (drop (length ls - 5) ls) [newline])"

section \<open>Compose files and the Infisical token\<close>

text \<open>\<^verbatim>\<open>src/internal/compose/compose.go\<close>\<close>

definition compose_Candidates :: "string list" where
  "compose_Candidates = [''compose.yaml'', ''compose.yml'', ''docker-compose.yml'', ''docker-compose.yaml'']"

record InfisicalConfig =
  ic_Token :: string
  ic_Env :: string
  ic_URL :: string
  ic_ProjectID :: string

fun bare_variable :: "string \<Rightarrow> bool" where
  "bare_variable (c # d # s) = ((c = CHR ''$'' \<and> is_upper d) \<or> bare_variable (d # s))"
| "bare_variable _ = False"

fun uses_env_in :: "'w os \<Rightarrow> 'w \<Rightarrow> string \<Rightarrow> string list \<Rightarrow> bool" where
  "uses_env_in os w stackPath [] = False"
| "uses_env_in os w stackPath (name # names) =
     (case os_ReadFile os w (filepath_Join stackPath name) of
        None \<Rightarrow> uses_env_in os w stackPath names
      | Some content \<Rightarrow> Contains content ''${'' \<or> bare_variable content)"

definition composeUsesEnvVars :: "'w os \<Rightarrow> 'w \<Rightarrow> string \<Rightarrow> bool" where
  "composeUsesEnvVars os w stackPath = uses_env_in os w stackPath compose_Candidates"

definition infisicalMode :: "'w os \<Rightarrow> 'w \<Rightarrow> string \<Rightarrow> InfisicalConfig \<Rightarrow> string" where
  "infisicalMode os w stackPath cfg =
     (if os_Stat_ok os w (filepath_Join stackPath ''infisical.toml'') then ''per-stack''
      else if ic_Token cfg \<noteq> [] \<and> composeUsesEnvVars os w stackPath then ''global''
      else [])"

definition compose_up :: "string list" where
  "compose_up = [''docker'', ''compose'', ''up'', ''-d'']"

definition opt_arg :: "string \<Rightarrow> string \<Rightarrow> string list" where
  "opt_arg flag v = (if v \<noteq> [] then [flag @ v] else [])"

definition buildComposeCmd :: "'w os \<Rightarrow> 'w \<Rightarrow> string \<Rightarrow> InfisicalConfig \<Rightarrow> command" where
  "buildComposeCmd os w stackPath cfg =
     (let tomlPath = filepath_Join stackPath ''infisical.toml'';
          hasToml = os_Stat_ok os w tomlPath in
      if \<not> hasToml \<and> ic_Token cfg = [] then CommandContext ''docker'' (tl compose_up)
      else if hasToml then
        CommandContext ''infisical''
          ([''run'', ''--config='' @ tomlPath] @ opt_arg ''--domain='' (ic_URL cfg) @ [''--''] @ compose_up)
      else
        (CommandContext ''infisical''
          ([''run'', ''--env='' @ ic_Env cfg] @ opt_arg ''--projectId='' (ic_ProjectID cfg)
           @ opt_arg ''--domain='' (ic_URL cfg) @ [''--''] @ compose_up))
        \<lparr>cmd_Env := Some (os_Environ os w @ [''INFISICAL_TOKEN='' @ ic_Token cfg])\<rparr>)"

section \<open>Container details\<close>

definition latestStartedAt :: "ContainerDetail list \<Rightarrow> gotime" where
  "latestStartedAt cs = fold (\<lambda>c latest. if ct_StartedAt c > latest then ct_StartedAt c else latest) cs zero_time"

definition running_count :: "ContainerDetail list \<Rightarrow> goint" where
  "running_count cs = of_nat (length (filter (\<lambda>c. ct_Status c = ''running'') cs))"

definition refresh_stack :: "'w platform \<Rightarrow> StackState \<Rightarrow> ('w, 'z) daemon_scheme \<Rightarrow> ('w, 'z) daemon_scheme" where
  "refresh_stack pf st d =
     (if ss_StackDir st = [] then d
      else (let (res, d1) = ListStackContainerDetails (pf_ut pf) (pf_api pf) (ss_StackDir st) d;
                containers = (case res of Inl _ \<Rightarrow> [] | Inr cs \<Rightarrow> cs) in
            on_metrics (SetContainersRunning (ss_RepoName st @ ''/'' @ ss_Name st) (running_count containers))
              (on_store (UpdateStackContainers (ss_RepoName st) (ss_Name st) containers) d1)))"

definition reconnect :: "'w platform \<Rightarrow> ('w, 'z) daemon_scheme \<Rightarrow> client option \<times> ('w, 'z) daemon_scheme" where
  "reconnect pf d =
     (case holder_Get (d_holder d) of
        Some c \<Rightarrow> (Some c, d)
      | None \<Rightarrow>
          (let (new, d1) = api_call (da_New (pf_api pf)) d in
           case new of
             None \<Rightarrow> (None, d1)
           | Some c \<Rightarrow>
               (let (won, h) = CompareAndSwap None (Some c) (d_holder d1); d2 = d1\<lparr>d_holder := h\<rparr> in
                if won then (Some c, d2)
                else (let (_, d3) = api_call (\<lambda>w. ((), da_Close (pf_api pf) c w)) d2 in
                      (holder_Get (d_holder d3), d3)))))"

definition refreshContainers :: "'w platform \<Rightarrow> ('w, 'z) daemon_scheme \<Rightarrow> ('w, 'z) daemon_scheme" where
  "refreshContainers pf d =
     (if d_holder d = None then d
      else (let (client, d1) = reconnect pf d in
            case client of
              None \<Rightarrow> d1
            | Some _ \<Rightarrow> fold (refresh_stack pf) (GetAllStacks (pf_orders pf) (d_store d1)) d1))"

section \<open>Applying\<close>

definition blank_stack :: "string \<Rightarrow> string \<Rightarrow> string \<Rightarrow> StackState" where
  "blank_stack stackPath stackName repoName =
     \<lparr>ss_Name = stackName, ss_RepoName = repoName, ss_StackDir = stackPath, ss_LastApply = zero_time,
      ss_Status = ApplyApplying, ss_LastOutput = [], ss_LastError = [], ss_Containers = [], ss_InfisicalMode = []\<rparr>"

definition applied_stack ::
    "'w platform \<Rightarrow> string \<Rightarrow> string \<Rightarrow> string \<Rightarrow> InfisicalConfig \<Rightarrow> exec_result \<Rightarrow> ('w, 'z) daemon_scheme
       \<Rightarrow> StackState \<times> ('w, 'z) daemon_scheme" where
  "applied_stack pf stackPath stackName repoName cfg res d =
     (let (now, d1) = time_Now (pf_os pf) d;
          st = (blank_stack stackPath stackName repoName)
             \<lparr>ss_LastApply := now, ss_LastOutput := res_Combined res,
              ss_InfisicalMode := infisicalMode (pf_os pf) (world d1) stackPath cfg\<rparr> in
      case res_Err res of
        Some e \<Rightarrow> (st\<lparr>ss_Status := ApplyError,
                      ss_LastError := extractErrorSummary (res_Combined res) (exec_error_text e)\<rparr>, d1)
      | None \<Rightarrow>
          (let ok = st\<lparr>ss_Status := ApplyOK\<rparr> in
           case holder_Get (d_holder d1) of
             None \<Rightarrow> (ok, d1)
           | Some _ \<Rightarrow>
               (let (ctrs, d2) = ListStackContainerDetails (pf_ut pf) (pf_api pf) stackPath d1 in
                (case ctrs of
                   Inl _ \<Rightarrow> ok
                 | Inr cs \<Rightarrow>
                     (let ok1 = ok\<lparr>ss_Containers := cs\<rparr>; latest = latestStartedAt cs in
                      if \<not> IsZero latest then ok1\<lparr>ss_LastApply := latest\<rparr> else ok1), d2))))"

definition applyStack ::
    "'w platform \<Rightarrow> string \<Rightarrow> string \<Rightarrow> string \<Rightarrow> InfisicalConfig \<Rightarrow> ('w, 'z) daemon_scheme \<Rightarrow> ('w, 'z) daemon_scheme" where
  "applyStack pf stackPath stackName repoName cfg d =
     (let d1 = publish (event ''applying'' repoName stackName (''Applying '' @ stackName)) d;
          d2 = on_store (UpdateStack (blank_stack stackPath stackName repoName)) d1;
          c = (buildComposeCmd (pf_os pf) (world d2) stackPath cfg)\<lparr>cmd_Dir := stackPath\<rparr>;
          (res, d3) = run_command (pf_os pf) c d2;
          (st, d4) = applied_stack pf stackPath stackName repoName cfg res d3;
          d5 = on_store (UpdateStack st) d4
      in if res_Err res \<noteq> None then
           publish (event ''error'' repoName stackName (stackName @ '' failed''))
             (on_metrics (RecordApply stackName ''error'') d5)
         else
           publish (event ''done'' repoName stackName (stackName @ '' ready''))
             (on_metrics (RecordApply stackName ''success'') d5))"

definition has_compose :: "'w os \<Rightarrow> 'w \<Rightarrow> string \<Rightarrow> bool" where
  "has_compose os w stackPath \<longleftrightarrow> list_ex (\<lambda>cand. os_Stat_ok os w (filepath_Join stackPath cand)) compose_Candidates"

fun apply_entries ::
    "'w platform \<Rightarrow> string \<Rightarrow> string \<Rightarrow> InfisicalConfig \<Rightarrow> (string \<times> bool) list \<Rightarrow> ('w, 'z) daemon_scheme
       \<Rightarrow> ('w, 'z) daemon_scheme" where
  "apply_entries pf stacksDir repoName cfg [] d = d"
| "apply_entries pf stacksDir repoName cfg ((name, isDir) # es) d =
     (if \<not> isDir then apply_entries pf stacksDir repoName cfg es d
      else (let stackPath = filepath_Join stacksDir name in
            if \<not> has_compose (pf_os pf) (world d) stackPath then apply_entries pf stacksDir repoName cfg es d
            else apply_entries pf stacksDir repoName cfg es (applyStack pf stackPath name repoName cfg d)))"

definition runStacksSync ::
    "'w platform \<Rightarrow> string \<Rightarrow> string \<Rightarrow> InfisicalConfig \<Rightarrow> ('w, 'z) daemon_scheme \<Rightarrow> ('w, 'z) daemon_scheme" where
  "runStacksSync pf stacksDir repoName cfg d =
     (if stacksDir = [] then d
      else (case os_ReadDir (pf_os pf) (world d) stacksDir of
              None \<Rightarrow> d
            | Some entries \<Rightarrow> apply_entries pf stacksDir repoName cfg entries d))"

section \<open>Frames\<close>

lemma publish_frames [frame_simps]:
  "ran (publish e d) = ran d" "world (publish e d) = world d" "d_db (publish e d) = d_db d"
  "d_sched (publish e d) = d_sched d" "d_store (publish e d) = d_store d"
  "d_metrics (publish e d) = d_metrics d" "d_holder (publish e d) = d_holder d"
  "daemon.more (publish e d) = daemon.more d"
  by (simp_all add: publish_def)

lemma on_store_frames [frame_simps]:
  "ran (on_store f d) = ran d" "world (on_store f d) = world d" "d_db (on_store f d) = d_db d"
  "d_sched (on_store f d) = d_sched d" "d_store (on_store f d) = f (d_store d)" "d_bus (on_store f d) = d_bus d"
  "d_metrics (on_store f d) = d_metrics d" "d_holder (on_store f d) = d_holder d"
  "daemon.more (on_store f d) = daemon.more d"
  by (simp_all add: on_store_def)

lemma on_metrics_frames [frame_simps]:
  "ran (on_metrics f d) = ran d" "world (on_metrics f d) = world d" "d_db (on_metrics f d) = d_db d"
  "d_sched (on_metrics f d) = d_sched d" "d_store (on_metrics f d) = d_store d" "d_bus (on_metrics f d) = d_bus d"
  "d_metrics (on_metrics f d) = f (d_metrics d)" "d_holder (on_metrics f d) = d_holder d"
  "daemon.more (on_metrics f d) = daemon.more d"
  by (simp_all add: on_metrics_def)

text \<open>What the machine does leaves the daemon's own state alone.\<close>

lemma more_frames:
  assumes "machine.more d' = machine.more (d :: ('w, 'z) daemon_scheme)"
  shows "d_db d' = d_db d" "d_sched d' = d_sched d" "d_store d' = d_store d" "d_bus d' = d_bus d"
    "d_metrics d' = d_metrics d" "d_holder d' = d_holder d" "daemon.more d' = daemon.more d"
  using assms by (cases d; cases d'; simp)+

lemmas run_command_daemon [frame_simps] = more_frames [OF machine_more_frames(1)]
lemmas time_Now_daemon [frame_simps] = more_frames [OF machine_more_frames(2)]
lemmas api_call_daemon [frame_simps] = more_frames [OF api_call_frames(2)]

lemma collect_details_frames:
  "machine.more (snd (collect_details ut api cts acc m)) = machine.more m
   \<and> ran (snd (collect_details ut api cts acc m)) = ran m"
proof (induction ut api cts acc m rule: collect_details.induct)
  case (1 ut api acc m)
  show ?case by simp
next
  case (2 ut api ct cts acc m)
  then show ?case by (auto simp: split_def Let_def frame_simps)
qed

lemma ListStackContainerDetails_frames [frame_simps]:
  "machine.more (snd (ListStackContainerDetails ut api dir m)) = machine.more m"
  "ran (snd (ListStackContainerDetails ut api dir m)) = ran m"
  by (auto simp: ListStackContainerDetails_def split_def Let_def frame_simps collect_details_frames
      split: sum.splits)

lemmas ListStackContainerDetails_daemon [frame_simps] = more_frames [OF ListStackContainerDetails_frames(1)]

lemma applied_stack_frames [frame_simps]:
  "machine.more (snd (applied_stack pf p n r cfg res d)) = machine.more d"
  "ran (snd (applied_stack pf p n r cfg res d)) = ran d"
  by (simp_all add: applied_stack_def split_def Let_def frame_simps split: option.splits)

lemmas applied_stack_daemon [frame_simps] = more_frames [OF applied_stack_frames(1)]

lemma applied_stack_fields:
  "ss_Name (fst (applied_stack pf p n r cfg res d)) = n"
  "ss_RepoName (fst (applied_stack pf p n r cfg res d)) = r"
  "ss_StackDir (fst (applied_stack pf p n r cfg res d)) = p"
  "ss_LastOutput (fst (applied_stack pf p n r cfg res d)) = res_Combined res"
  "ss_Status (fst (applied_stack pf p n r cfg res d)) = (if res_Err res = None then ApplyOK else ApplyError)"
  "ss_LastError (fst (applied_stack pf p n r cfg res d)) =
     (case res_Err res of None \<Rightarrow> [] | Some e \<Rightarrow> extractErrorSummary (res_Combined res) (exec_error_text e))"
  by (simp_all add: applied_stack_def split_def Let_def blank_stack_def split: option.splits sum.splits)

section \<open>What an apply does\<close>

definition stack_command :: "'w platform \<Rightarrow> 'w \<Rightarrow> string \<Rightarrow> InfisicalConfig \<Rightarrow> command" where
  "stack_command pf w p cfg = (buildComposeCmd (pf_os pf) w p cfg)\<lparr>cmd_Dir := p\<rparr>"

definition apply_result :: "'w platform \<Rightarrow> string \<Rightarrow> InfisicalConfig \<Rightarrow> ('w, 'z) daemon_scheme \<Rightarrow> exec_result" where
  "apply_result pf p cfg d = fst (os_Exec (pf_os pf) (stack_command pf (world d) p cfg) (world d))"

lemma run_command_fst: "fst (run_command os c m) = fst (os_Exec os c (world m))"
  by (simp add: run_command_def split_def Let_def)

lemma get_stack_UpdateStack:
  "get_stack (UpdateStack st s) = (get_stack s)(stack_key (ss_RepoName st) (ss_Name st) \<mapsto> st)"
  by (rule ext) (simp add: UpdateStack_put stack_store.get_put)

lemma blank_stack_fields [simp]:
  "ss_Name (blank_stack p n r) = n" "ss_RepoName (blank_stack p n r) = r" "ss_StackDir (blank_stack p n r) = p"
  by (simp_all add: blank_stack_def)

lemma applyStack_frames [frame_simps]:
  "d_db (applyStack pf p n r cfg d) = d_db d" "d_sched (applyStack pf p n r cfg d) = d_sched d"
  "d_holder (applyStack pf p n r cfg d) = d_holder d" "daemon.more (applyStack pf p n r cfg d) = daemon.more d"
  "st_repos (d_store (applyStack pf p n r cfg d)) = st_repos (d_store d)"
  "st_infisical (d_store (applyStack pf p n r cfg d)) = st_infisical (d_store d)"
  by (simp_all add: applyStack_def split_def Let_def frame_simps)

lemma applyStack_ran:
  "ran (applyStack pf p n r cfg d) = ran d @ [stack_command pf (world d) p cfg]"
  by (simp add: applyStack_def split_def Let_def frame_simps stack_command_def)

lemma applyStack_store:
  "\<exists>st. get_stack (d_store (applyStack pf p n r cfg d)) = (get_stack (d_store d))(stack_key r n \<mapsto> st)
     \<and> ss_Name st = n \<and> ss_RepoName st = r \<and> ss_StackDir st = p
     \<and> ss_LastOutput st = res_Combined (apply_result pf p cfg d)
     \<and> ss_Status st = (if res_Err (apply_result pf p cfg d) = None then ApplyOK else ApplyError)
     \<and> ss_LastError st = (case res_Err (apply_result pf p cfg d) of None \<Rightarrow> []
          | Some e \<Rightarrow> extractErrorSummary (res_Combined (apply_result pf p cfg d)) (exec_error_text e))"
proof -
  let ?d2 = "on_store (UpdateStack (blank_stack p n r)) (publish (event ''applying'' r n (''Applying '' @ n)) d)"
  let ?rd = "run_command (pf_os pf) (stack_command pf (world ?d2) p cfg) ?d2"
  let ?st = "fst (applied_stack pf p n r cfg (fst ?rd) (snd ?rd))"
  have res: "fst ?rd = apply_result pf p cfg d"
    by (simp add: run_command_fst apply_result_def frame_simps)
  have "d_store (applyStack pf p n r cfg d) = UpdateStack ?st (UpdateStack (blank_stack p n r) (d_store d))"
    by (simp add: applyStack_def split_def Let_def frame_simps stack_command_def)
  then have "get_stack (d_store (applyStack pf p n r cfg d)) = (get_stack (d_store d))(stack_key r n \<mapsto> ?st)"
    by (simp add: get_stack_UpdateStack applied_stack_fields)
  then show ?thesis using res by (intro exI [of _ ?st]) (simp add: applied_stack_fields)
qed

lemma applyStack_metrics:
  "d_metrics (applyStack pf p n r cfg d) =
     RecordApply n (if res_Err (apply_result pf p cfg d) = None then ''success'' else ''error'') (d_metrics d)"
  by (simp add: applyStack_def split_def Let_def frame_simps stack_command_def [symmetric] run_command_fst
      apply_result_def)

section \<open>Applying a directory\<close>

lemma apply_entries_frames [frame_simps]:
  "d_db (apply_entries pf sd r cfg es d) = d_db d" "d_sched (apply_entries pf sd r cfg es d) = d_sched d"
  "d_holder (apply_entries pf sd r cfg es d) = d_holder d" "daemon.more (apply_entries pf sd r cfg es d) = daemon.more d"
  "st_repos (d_store (apply_entries pf sd r cfg es d)) = st_repos (d_store d)"
  "st_infisical (d_store (apply_entries pf sd r cfg es d)) = st_infisical (d_store d)"
  by (induction pf sd r cfg es d rule: apply_entries.induct) (simp_all add: Let_def frame_simps)

lemma runStacksSync_frames [frame_simps]:
  "d_db (runStacksSync pf sd r cfg d) = d_db d" "d_sched (runStacksSync pf sd r cfg d) = d_sched d"
  "d_holder (runStacksSync pf sd r cfg d) = d_holder d" "daemon.more (runStacksSync pf sd r cfg d) = daemon.more d"
  "st_repos (d_store (runStacksSync pf sd r cfg d)) = st_repos (d_store d)"
  "st_infisical (d_store (runStacksSync pf sd r cfg d)) = st_infisical (d_store d)"
  by (simp_all add: runStacksSync_def frame_simps split: option.splits)

definition stack_dirs :: "string \<Rightarrow> (string \<times> bool) list \<Rightarrow> string list" where
  "stack_dirs sd es = map (filepath_Join sd \<circ> fst) (filter snd es)"

text \<open>A command that applies a stack: compose, alone or under Infisical.\<close>

definition applies_stack :: "command \<Rightarrow> bool" where
  "applies_stack c \<longleftrightarrow> (cmd_Name c = ''docker'' \<and> cmd_Args c = tl compose_up)
     \<or> (cmd_Name c = ''infisical'' \<and> suffix compose_up (cmd_Args c))"

lemma stack_command_applies: "applies_stack (stack_command pf w p cfg)" "cmd_Dir (stack_command pf w p cfg) = p"
  by (auto simp: stack_command_def buildComposeCmd_def applies_stack_def Let_def suffix_def)

lemma apply_entries_ran:
  "\<exists>cs. ran (apply_entries pf sd r cfg es d) = ran d @ cs \<and> list_all applies_stack cs
     \<and> subseq (map cmd_Dir cs) (stack_dirs sd es)"
proof (induction pf sd r cfg es d rule: apply_entries.induct)
  case (1 pf sd r cfg d)
  show ?case by (simp add: stack_dirs_def)
next
  case (2 pf sd r cfg name isDir es d)
  show ?case
  proof (cases "isDir \<and> has_compose (pf_os pf) (world d) (filepath_Join sd name)")
    case False
    have "\<exists>cs. ran (apply_entries pf sd r cfg es d) = ran d @ cs \<and> list_all applies_stack cs
        \<and> subseq (map cmd_Dir cs) (stack_dirs sd es)"
      using False "2.IH" by blast
    then show ?thesis using False by (auto simp: stack_dirs_def Let_def)
  next
    case True
    let ?p = "filepath_Join sd name"
    let ?c = "stack_command pf (world d) ?p cfg"
    obtain cs where cs: "ran (apply_entries pf sd r cfg es (applyStack pf ?p name r cfg d))
        = ran (applyStack pf ?p name r cfg d) @ cs"
      "list_all applies_stack cs" "subseq (map cmd_Dir cs) (stack_dirs sd es)"
      using True "2.IH"(3) by blast
    then show ?thesis
      using True by (intro exI [of _ "?c # cs"])
        (simp add: applyStack_ran stack_command_applies stack_dirs_def Let_def)
  qed
qed

text \<open>Stacks of other repositories are not touched.\<close>

lemma apply_entries_other:
  assumes "CHR ''/'' \<notin> set r" "CHR ''/'' \<notin> set r'" "r' \<noteq> r"
  shows "GetStack (d_store (apply_entries pf sd r cfg es d)) r' n = GetStack (d_store d) r' n"
  using assms
proof (induction pf sd r cfg es d rule: apply_entries.induct)
  case (1 pf sd r cfg d)
  show ?case by simp
next
  case (2 pf sd r cfg name isDir es d)
  have "stack_key r' n \<noteq> stack_key r name" using 2(4-6) stack_key_inj by blast
  then have "GetStack (d_store (applyStack pf (filepath_Join sd name) name r cfg d)) r' n = GetStack (d_store d) r' n"
    using applyStack_store [of pf "filepath_Join sd name" name r cfg d] by (auto simp: GetStack_get)
  then show ?case using 2 by (simp add: Let_def)
qed

section \<open>What a refresh does\<close>

lemma refresh_stack_frames [frame_simps]:
  "ran (refresh_stack pf st d) = ran d" "d_db (refresh_stack pf st d) = d_db d"
  "d_sched (refresh_stack pf st d) = d_sched d" "d_holder (refresh_stack pf st d) = d_holder d"
  "d_bus (refresh_stack pf st d) = d_bus d" "daemon.more (refresh_stack pf st d) = daemon.more d"
  "st_repos (d_store (refresh_stack pf st d)) = st_repos (d_store d)"
  by (simp_all add: refresh_stack_def split_def Let_def frame_simps)

lemma fold_refresh_frames [frame_simps]:
  "ran (fold (refresh_stack pf) sts d) = ran d" "d_db (fold (refresh_stack pf) sts d) = d_db d"
  "d_sched (fold (refresh_stack pf) sts d) = d_sched d" "d_holder (fold (refresh_stack pf) sts d) = d_holder d"
  "d_bus (fold (refresh_stack pf) sts d) = d_bus d"
  "daemon.more (fold (refresh_stack pf) sts d) = daemon.more d"
  "st_repos (d_store (fold (refresh_stack pf) sts d)) = st_repos (d_store d)"
  by (induction sts arbitrary: d) (simp_all add: frame_simps)

lemma reconnect_frames [frame_simps]:
  "ran (snd (reconnect pf d)) = ran d" "d_db (snd (reconnect pf d)) = d_db d"
  "d_sched (snd (reconnect pf d)) = d_sched d" "d_store (snd (reconnect pf d)) = d_store d"
  "d_bus (snd (reconnect pf d)) = d_bus d" "daemon.more (snd (reconnect pf d)) = daemon.more d"
  by (auto simp: reconnect_def split_def Let_def frame_simps split: option.splits)

lemma refreshContainers_frames [frame_simps]:
  "ran (refreshContainers pf d) = ran d" "d_db (refreshContainers pf d) = d_db d"
  "d_sched (refreshContainers pf d) = d_sched d" "d_bus (refreshContainers pf d) = d_bus d"
  "daemon.more (refreshContainers pf d) = daemon.more d"
  "st_repos (d_store (refreshContainers pf d)) = st_repos (d_store d)"
  by (simp_all add: refreshContainers_def split_def Let_def frame_simps split: option.splits)

text \<open>A refresh changes the containers of stacks and nothing else of them.\<close>

definition same_but_containers :: "StackState option \<Rightarrow> StackState option \<Rightarrow> bool" where
  "same_but_containers a b \<longleftrightarrow> map_option (\<lambda>st. st\<lparr>ss_Containers := []\<rparr>) a = map_option (\<lambda>st. st\<lparr>ss_Containers := []\<rparr>) b"

lemma refresh_stack_same: "same_but_containers (get_stack (d_store (refresh_stack pf st d)) k) (get_stack (d_store d) k)"
  by (cases "get_stack (d_store d) k")
    (auto simp: refresh_stack_def split_def Let_def frame_simps get_stack_UpdateStackContainers same_but_containers_def)

lemma fold_refresh_same:
  "same_but_containers (get_stack (d_store (fold (refresh_stack pf) sts d)) k) (get_stack (d_store d) k)"
proof (induction sts arbitrary: d)
  case Nil
  show ?case by (simp add: same_but_containers_def)
next
  case (Cons st sts)
  have "same_but_containers (get_stack (d_store (fold (refresh_stack pf) sts (refresh_stack pf st d))) k)
      (get_stack (d_store (refresh_stack pf st d)) k)" by (rule Cons.IH)
  then show ?case using refresh_stack_same [of pf st d k] by (simp add: same_but_containers_def)
qed

lemma refreshContainers_same:
  "same_but_containers (get_stack (d_store (refreshContainers pf d)) k) (get_stack (d_store d) k)"
  by (auto simp: refreshContainers_def split_def Let_def frame_simps fold_refresh_same
      intro: fold_refresh_same [of pf _ "snd (reconnect pf d)", unfolded frame_simps] split: option.splits)
    (simp_all add: same_but_containers_def)

lemma latestStartedAt_upper: "c \<in> set cs \<Longrightarrow> ct_StartedAt c \<le> latestStartedAt cs"
  and latestStartedAt_in: "latestStartedAt cs \<in> insert zero_time (ct_StartedAt ` set cs)"
  by (induction cs rule: rev_induct) (auto simp: latestStartedAt_def)

section \<open>Properties\<close>

definition demo_api :: "'w docker_api" where
  "demo_api =
     \<lparr>da_New = (\<lambda>w. (Some 1, w)), da_Close = (\<lambda>c w. w),
      da_List = (\<lambda>k v w. (Inr [\<lparr>cs_ID = ''0123456789abcdef'', cs_Names = [''/plex-1''], cs_Image = ''plex'',
                                cs_State = ''running''\<rparr>], w)),
      da_Inspect = (\<lambda>i w. (None, w)), da_Start = (\<lambda>n w. (None, w)), da_Stop = (\<lambda>n w. (None, w)),
      da_Restart = (\<lambda>n w. (None, w)), da_ExecCreate = (\<lambda>c a t w. (Inr ''e1'', w)), da_ExecStart = (\<lambda>e w. (None, w)),
      da_ExecInspect = (\<lambda>e w. (Some 0, w)), da_ExecAttach = (\<lambda>e w. (None, w)), da_ExecResize = (\<lambda>e a b w. (None, w)),
      da_Logs = (\<lambda>n w. (Inr ([], None), w)),
      da_ctx_done = (\<lambda>w. False), da_ParseTime = (\<lambda>s. None), da_ports_order = (\<lambda>p. p)\<rparr>"

definition demo_pf :: "(string \<times> string) list platform" where
  "demo_pf = \<lparr>pf_os = demo_os, pf_api = demo_api, pf_ut = ascii_tables, pf_dt = demo_dt, pf_aead = demo_aead,
     pf_ip6 = (\<lambda>_. False), pf_orders = \<lparr>ord_repos = (\<lambda>x. x), ord_stacks = (\<lambda>x. x)\<rparr>,
     pf_ctx_done = (\<lambda>_. False)\<rparr>"

definition demo_daemon :: "(string \<times> string) list \<Rightarrow> (string \<times> string) list daemon" where
  "demo_daemon files = \<lparr>world = files, ran = [], d_db = fresh_database [], d_sched = new_scheduler,
     d_store = store_New, d_bus = NewActivityBus, d_metrics = no_metrics, d_holder = Some (Some 1)\<rparr>"


text \<open>
  The Infisical token is never on a command line: with any two non-empty tokens the program
  and every argument of the command are the same, and the token is added to the environment only,
  and only when the stack has no \<^verbatim>\<open>infisical.toml\<close> of its own.
\<close>

theorem infisical_token_not_on_argv:
  assumes "t \<noteq> []" and "t' \<noteq> []"
  shows "cmd_Name (buildComposeCmd os w p (cfg\<lparr>ic_Token := t\<rparr>)) = cmd_Name (buildComposeCmd os w p (cfg\<lparr>ic_Token := t'\<rparr>))
    \<and> cmd_Args (buildComposeCmd os w p (cfg\<lparr>ic_Token := t\<rparr>)) = cmd_Args (buildComposeCmd os w p (cfg\<lparr>ic_Token := t'\<rparr>))
    \<and> cmd_Env (buildComposeCmd os w p (cfg\<lparr>ic_Token := t\<rparr>)) =
        (if os_Stat_ok os w (filepath_Join p ''infisical.toml'') then None
         else Some (os_Environ os w @ [''INFISICAL_TOKEN='' @ t]))"
  using assms by (simp add: buildComposeCmd_def Let_def)

theorem infisical_token_not_on_argv_witness:
  "cmd_Env (buildComposeCmd demo_os [] ''/r/plex'' \<lparr>ic_Token = ''st.secret'', ic_Env = ''prod'', ic_URL = [], ic_ProjectID = []\<rparr>)
     = Some [''PATH=/bin'', ''INFISICAL_TOKEN=st.secret'']
   \<and> cmd_Args (buildComposeCmd demo_os [] ''/r/plex'' \<lparr>ic_Token = ''st.secret'', ic_Env = ''prod'', ic_URL = [], ic_ProjectID = []\<rparr>)
     = [''run'', ''--env=prod'', ''--'', ''docker'', ''compose'', ''up'', ''-d'']"
  using infisical_token_not_on_argv [of "''st.secret''" "''x''" demo_os "[]" "''/r/plex''"
      "\<lparr>ic_Token = [], ic_Env = ''prod'', ic_URL = [], ic_ProjectID = []\<rparr>"]
  by (simp add: demo_os_def buildComposeCmd_def opt_arg_def compose_up_def)



end
