(* ===== verification/Sync.thy ===== *)
theory Sync
  imports Deploy
begin

text \<open>
  Syncing a repository (\<^verbatim>\<open>src/main.go\<close>: \<^verbatim>\<open>safeRepoPath\<close>, \<^verbatim>\<open>setupGitAuth\<close>, \<^verbatim>\<open>gitSyncToDisk\<close>,
  \<^verbatim>\<open>syncRepoFromDB\<close>, \<^verbatim>\<open>loadInfisicalFromDB\<close>, and \<^verbatim>\<open>main\<close>'s \<^verbatim>\<open>doSyncRound\<close>, manual-trigger handling and
  per-stack apply callback): from the row in the database to the clone on disk, the applied stacks
  and what is recorded about it. \<^verbatim>\<open>syncRepoFromDB\<close> holds the repository's mutex while it works; the
  mutual exclusion itself is in \<open>Concurrency\<close>. The clock is read once before each backoff and
  schedule update. Deadlines of contexts show as failures of the operations under them.
\<close>

section \<open>Configuration\<close>

record config =
  cf_cloneDir :: string
  cf_cryptoKey :: string
  cf_sshTempDir :: string

definition on_db :: "(database \<Rightarrow> 'a \<times> database) \<Rightarrow> ('w, 'z) daemon_scheme \<Rightarrow> 'a \<times> ('w, 'z) daemon_scheme" where
  "on_db f d = (let (a, db') = f (d_db d) in (a, d\<lparr>d_db := db'\<rparr>))"

definition on_sched :: "(scheduler \<Rightarrow> scheduler) \<Rightarrow> ('w, 'z) daemon_scheme \<Rightarrow> ('w, 'z) daemon_scheme" where
  "on_sched f d = d\<lparr>d_sched := f (d_sched d)\<rparr>"

text \<open>The text of a store error: the operation and the kind of failure.\<close>

definition db_error_text :: "db_error \<Rightarrow> string" where
  "db_error_text e = fst e @ '': '' @ (case snd e of
      ErrNoRows \<Rightarrow> ''sql: no rows in result set'' | ConstraintFailed \<Rightarrow> ''constraint failed''
    | DriverFailed \<Rightarrow> ''driver failed'' | Panic \<Rightarrow> ''panic'')"

section \<open>Paths and credentials\<close>

definition safeRepoPath :: "string \<Rightarrow> string \<Rightarrow> string + string" where
  "safeRepoPath cloneDir repoName =
     (case ValidateRepoName repoName of
        Inl e \<Rightarrow> Inl e
      | Inr _ \<Rightarrow>
          (let dest = filepath_Join cloneDir repoName in
           case filepath_Rel cloneDir dest of
             None \<Rightarrow> Inl ''repo path escapes clone dir''
           | Some rel \<Rightarrow>
               if rel = ''..'' \<or> HasPrefix rel ''../'' then Inl ''repo path escapes clone dir'' else Inr dest))"

text \<open>The options and the key file that the clean-up removes, if one was written.\<close>

definition setupGitAuth ::
    "'w platform \<Rightarrow> config \<Rightarrow> RepoDB \<Rightarrow> ('w, 'z) daemon_scheme
       \<Rightarrow> (string + AuthOpts \<times> string option) \<times> ('w, 'z) daemon_scheme" where
  "setupGitAuth pf cf repo d =
     (let opts = \<lparr>ao_Type = rdb_AuthType repo, ao_SSHKeyPath = [], ao_PAT = []\<rparr> in
      if rdb_AuthType repo = ''ssh'' then
        (if rdb_SSHKeyID repo = [] then (Inr (opts, None), d)
         else
           (let (key, d1) = on_db (GetSSHKey (pf_dt pf) (rdb_SSHKeyID repo)) d in
            case key of
              Inl e \<Rightarrow> (Inl (''get SSH key: '' @ db_error_text e), d1)
            | Inr sshKey \<Rightarrow>
                (case Decrypt (pf_aead pf) (cf_cryptoKey cf) (key_PrivateKeyEnc sshKey) of
                   Inl e \<Rightarrow> (Inl (''decrypt SSH key: '' @ e), d1)
                 | Inr priv \<Rightarrow>
                     (let privKey = (if HasSuffix priv [newline] then priv else priv @ [newline]);
                          (tmp, d2) = create_temp (pf_os pf) (cf_sshTempDir cf) ''stackd-key-*'' d1 in
                      case tmp of
                        None \<Rightarrow> (Inl ''create temp key file'', d2)
                      | Some path \<Rightarrow>
                          (let (written, d3) = write_file (pf_os pf) path privKey d2 in
                           if \<not> written then (Inl ''write SSH key file'', remove_file (pf_os pf) path d3)
                           else (Inr (opts\<lparr>ao_SSHKeyPath := path\<rparr>, Some path), d3))))))
      else if rdb_AuthType repo = ''pat'' then
        (if rdb_PATEnc repo = [] then (Inr (opts, None), d)
         else (case Decrypt (pf_aead pf) (cf_cryptoKey cf) (rdb_PATEnc repo) of
                 Inl e \<Rightarrow> (Inl (''decrypt PAT: '' @ e), d)
               | Inr pat \<Rightarrow> (Inr (opts\<lparr>ao_PAT := pat\<rparr>, None), d)))
      else (Inr (opts, None), d))"

definition auth_cleanup :: "'w platform \<Rightarrow> string option \<Rightarrow> ('w, 'z) daemon_scheme \<Rightarrow> ('w, 'z) daemon_scheme" where
  "auth_cleanup pf key d = (case key of None \<Rightarrow> d | Some path \<Rightarrow> remove_file (pf_os pf) path d)"

text \<open>The result is the clone's directory; the callers never use it when there was an error.\<close>

definition gitSyncToDisk ::
    "'w platform \<Rightarrow> config \<Rightarrow> RepoDB \<Rightarrow> ('w, 'z) daemon_scheme \<Rightarrow> (string + string) \<times> ('w, 'z) daemon_scheme" where
  "gitSyncToDisk pf cf repo d =
     (case safeRepoPath (cf_cloneDir cf) (rdb_Name repo) of
        Inl e \<Rightarrow> (Inl e, d)
      | Inr destDir \<Rightarrow>
          (let (auth, d1) = setupGitAuth pf cf repo d in
           case auth of
             Inl e \<Rightarrow> (Inl e, d1)
           | Inr (opts, key) \<Rightarrow>
               (let remote = (if rdb_Remote repo = [] then ''origin'' else rdb_Remote repo);
                    (r, d2) = SyncRepo (pf_os pf) destDir (rdb_URL repo) remote (rdb_Branch repo) opts d1;
                    d3 = auth_cleanup pf key d2 in
                (case r of Inl e \<Rightarrow> Inl e | Inr _ \<Rightarrow> Inr destDir, d3))))"

section \<open>One sync\<close>

text \<open>\<^verbatim>\<open>time.Since\<close>: a duration saturates at the ends of its range.\<close>

definition since :: "'w platform \<Rightarrow> gotime \<Rightarrow> ('w, 'z) daemon_scheme \<Rightarrow> duration \<times> ('w, 'z) daemon_scheme" where
  "since pf start d =
     (let (now, d1) = time_Now (pf_os pf) d in (word_of_int (max (- (2 ^ 63)) (min (2 ^ 63 - 1) (now - start))), d1))"

definition mark_syncing :: "string \<Rightarrow> Store \<Rightarrow> Store" where
  "mark_syncing repoName s =
     (let existing = (case GetRepo s repoName of None \<Rightarrow> zero_RepoState\<lparr>rs_Name := repoName\<rparr> | Some r \<Rightarrow> r) in
      UpdateRepo (existing\<lparr>rs_Status := StatusSyncing\<rparr>) s)"

definition store_error :: "string \<Rightarrow> string \<Rightarrow> Store \<Rightarrow> Store" where
  "store_error repoName msg s =
     (let existing = (case GetRepo s repoName of None \<Rightarrow> zero_RepoState | Some r \<Rightarrow> r) in
      UpdateRepo (existing\<lparr>rs_Name := repoName, rs_Status := StatusError, rs_LastError := msg\<rparr>) s)"

definition recordError ::
    "'w platform \<Rightarrow> string \<Rightarrow> duration \<Rightarrow> gotime \<Rightarrow> string \<Rightarrow> ('w, 'z) daemon_scheme \<Rightarrow> ('w, 'z) daemon_scheme" where
  "recordError pf repoName syncInterval start msg0 d =
     (let msg = Redact msg0;
          d1 = on_store (store_error repoName msg) d;
          (now, d2) = time_Now (pf_os pf) d1;
          d3 = on_sched (\<lambda>s. snd (recordSyncFailure repoName syncInterval now s)) d2;
          (dur, d4) = since pf start d3 in
      on_metrics (RecordSync repoName ''error'' dur zero_time) d4)"

definition recordSuccess ::
    "'w platform \<Rightarrow> string \<Rightarrow> duration \<Rightarrow> gotime \<Rightarrow> string \<Rightarrow> ('w, 'z) daemon_scheme \<Rightarrow> ('w, 'z) daemon_scheme" where
  "recordSuccess pf repoName syncInterval start newSHA d =
     (let (t1, d1) = time_Now (pf_os pf) d;
          d2 = on_store (UpdateRepo \<lparr>rs_Name = repoName, rs_LastSync = t1, rs_LastSHA = newSHA,
                                      rs_Status = StatusOK, rs_LastError = []\<rparr>) d1;
          d3 = on_sched (recordSyncSuccess repoName) d2;
          (t2, d4) = time_Now (pf_os pf) d3;
          d5 = on_sched (markScheduled repoName syncInterval t2) d4;
          (dur, d6) = since pf start d5;
          (t3, d7) = time_Now (pf_os pf) d6 in
      on_metrics (RecordSync repoName ''success'' dur t3) d7)"

definition syncRepoFromDB ::
    "'w platform \<Rightarrow> config \<Rightarrow> RepoDB \<Rightarrow> InfisicalConfig \<Rightarrow> duration \<Rightarrow> ('w, 'z) daemon_scheme \<Rightarrow> ('w, 'z) daemon_scheme" where
  "syncRepoFromDB pf cf repo icfg defaultInterval d =
     (let repoName = rdb_Name repo;
          (start, d1) = time_Now (pf_os pf) d;
          syncInterval = effectiveInterval repo defaultInterval;
          d2 = on_store (mark_syncing repoName) d1;
          oldSHA = (case GetRepo (d_store d2) repoName of None \<Rightarrow> [] | Some rs \<Rightarrow> rs_LastSHA rs);
          d3 = publish (event ''pulling'' repoName [] (''Pulling '' @ repoName)) d2;
          (dest, d4) = gitSyncToDisk pf cf repo d3 in
      case dest of
        Inl e \<Rightarrow> recordError pf repoName syncInterval start (''git sync failed: '' @ e)
                   (publish (event ''error'' repoName [] (repoName @ '' pull failed'')) d4)
      | Inr destDir \<Rightarrow>
          (let (sha, d5) = HeadSHA (pf_os pf) destDir d4 in
           case sha of
             Inl e \<Rightarrow> recordError pf repoName syncInterval start (''resolve HEAD SHA: '' @ e)
                        (publish (event ''error'' repoName [] (repoName @ '' sync failed'')) d5)
           | Inr newSHA \<Rightarrow>
               (let d6 = (if newSHA \<noteq> oldSHA
                          then runStacksSync pf (filepath_Join destDir (rdb_StacksDir repo)) repoName icfg d5
                          else d5) in
                recordSuccess pf repoName syncInterval start newSHA
                  (publish (event ''done'' repoName [] (repoName @ '' up to date'')) d6))))"

section \<open>Settings of a round\<close>

definition loadInfisicalFromDB :: "'w platform \<Rightarrow> config \<Rightarrow> ('w, 'z) daemon_scheme \<Rightarrow> InfisicalConfig \<times> ('w, 'z) daemon_scheme" where
  "loadInfisicalFromDB pf cf d =
     (let cfg = \<lparr>ic_Token = [], ic_Env = ''prod'', ic_URL = [], ic_ProjectID = []\<rparr>;
          (res, d1) = on_db GetAllSettings d in
      case res of
        Inl _ \<Rightarrow> (cfg, d1)
      | Inr settings \<Rightarrow>
          (let env = mget0 [] settings ''infisical_env'';
               cfg1 = cfg\<lparr>ic_Env := (if env \<noteq> [] then env else ic_Env cfg),
                          ic_URL := mget0 [] settings ''infisical_url'',
                          ic_ProjectID := mget0 [] settings ''infisical_project_id''\<rparr>;
               (tok, d2) = on_db (GetSetting ''infisical_token'') d1 in
           (case tok of
              Inl _ \<Rightarrow> cfg1
            | Inr (tokenEnc, _) \<Rightarrow>
                if tokenEnc = [] then cfg1
                else (case Decrypt (pf_aead pf) (cf_cryptoKey cf) tokenEnc of
                        Inl _ \<Rightarrow> cfg1
                      | Inr token \<Rightarrow> cfg1\<lparr>ic_Token := token\<rparr>), d2)))"

section \<open>Rounds, triggers, callbacks\<close>

fun sync_each ::
    "'w platform \<Rightarrow> config \<Rightarrow> InfisicalConfig \<Rightarrow> duration \<Rightarrow> RepoDB list \<Rightarrow> ('w, 'z) daemon_scheme
       \<Rightarrow> bool \<times> ('w, 'z) daemon_scheme" where
  "sync_each pf cf icfg defaultInterval [] d = (True, d)"
| "sync_each pf cf icfg defaultInterval (repo # repos) d =
     (if pf_ctx_done pf (world d) then (False, d)
      else if \<not> rdb_Enabled repo then sync_each pf cf icfg defaultInterval repos d
      else
        (let (now, d1) = time_Now (pf_os pf) d;
             (skip, sch) = shouldSkipSync (rdb_Name repo) now (d_sched d1);
             d2 = d1\<lparr>d_sched := sch\<rparr> in
         if skip then sync_each pf cf icfg defaultInterval repos d2
         else
           (let (now', d3) = time_Now (pf_os pf) d2 in
            if \<not> dueForSync (rdb_Name repo) now' (d_sched d3) then sync_each pf cf icfg defaultInterval repos d3
            else sync_each pf cf icfg defaultInterval repos
                   (syncRepoFromDB pf cf repo icfg defaultInterval d3))))"

text \<open>A round that is cancelled half-way returns without the final refresh.\<close>

definition doSyncRound ::
    "'w platform \<Rightarrow> config \<Rightarrow> RepoDB list \<Rightarrow> InfisicalConfig \<Rightarrow> duration \<Rightarrow> ('w, 'z) daemon_scheme \<Rightarrow> ('w, 'z) daemon_scheme" where
  "doSyncRound pf cf repos icfg defaultInterval d =
     (let (completed, d1) = sync_each pf cf icfg defaultInterval repos d in
      if completed then refreshContainers pf d1 else d1)"

definition sync_triggered ::
    "'w platform \<Rightarrow> config \<Rightarrow> string set \<Rightarrow> InfisicalConfig \<Rightarrow> duration \<Rightarrow> RepoDB \<Rightarrow> ('w, 'z) daemon_scheme \<Rightarrow> ('w, 'z) daemon_scheme" where
  "sync_triggered pf cf triggered icfg defaultInterval repo d =
     (if rdb_Name repo \<notin> triggered then d
      else syncRepoFromDB pf cf repo icfg defaultInterval (on_sched (resetBackoff (rdb_Name repo)) d))"

definition manual_round ::
    "'w platform \<Rightarrow> config \<Rightarrow> string list \<Rightarrow> RepoDB list \<Rightarrow> duration \<Rightarrow> ('w, 'z) daemon_scheme \<Rightarrow> ('w, 'z) daemon_scheme" where
  "manual_round pf cf queue repos defaultInterval d =
     (let (icfg, d1) = loadInfisicalFromDB pf cf d in
      refreshContainers pf (fold (sync_triggered pf cf (set queue) icfg defaultInterval) repos d1))"

text \<open>The callback \<^verbatim>\<open>main\<close> installs for \<^verbatim>\<open>POST /api/stacks/{repo}/{stack}/apply\<close>.\<close>

definition onApply ::
    "'w platform \<Rightarrow> config \<Rightarrow> string \<Rightarrow> string \<Rightarrow> ('w, 'z) daemon_scheme \<Rightarrow> ('w, 'z) daemon_scheme" where
  "onApply pf cf repoName stackName d =
     (case GetStack (d_store d) repoName stackName of
        None \<Rightarrow> d
      | Some st \<Rightarrow>
          (let (repo, d1) = on_db (GetRepoByName (pf_dt pf) repoName) d in
           case repo of
             Inl _ \<Rightarrow> d1
           | Inr repoDB \<Rightarrow>
               (let (icfg, d2) = loadInfisicalFromDB pf cf d1;
                    d3 = publish (event ''pulling'' repoName [] (''Pulling '' @ repoName)) d2;
                    (r, d4) = gitSyncToDisk pf cf repoDB d3;
                    d5 = (case r of
                            Inl _ \<Rightarrow> publish (event ''error'' repoName [] (repoName @ '' pull failed'')) d4
                          | Inr _ \<Rightarrow> publish (event ''done'' repoName [] (repoName @ '' up to date'')) d4) in
                refreshContainers pf (applyStack pf (ss_StackDir st) stackName repoName icfg d5))))"

section \<open>Frames\<close>

text \<open>Everything but the world, the commands and the database.\<close>

definition inner :: "('w, 'z) daemon_scheme \<Rightarrow> scheduler \<times> Store \<times> ActivityBus \<times> metrics \<times> ClientHolder \<times> 'z" where
  "inner d = (d_sched d, d_store d, d_bus d, d_metrics d, d_holder d, daemon.more d)"

lemma inner_frames:
  assumes "inner d' = inner d"
  shows "d_sched d' = d_sched d" "d_store d' = d_store d" "d_bus d' = d_bus d" "d_metrics d' = d_metrics d"
    "d_holder d' = d_holder d" "daemon.more d' = daemon.more d"
  using assms by (simp_all add: inner_def)

lemma inner_more:
  assumes "machine.more d' = machine.more (d :: ('w, 'z) daemon_scheme)" shows "inner d' = inner d"
  using more_frames [OF assms] by (simp add: inner_def)

lemma on_db_frames [frame_simps]:
  "ran (snd (on_db f d)) = ran d" "world (snd (on_db f d)) = world d" "inner (snd (on_db f d)) = inner d"
  "fst (on_db f d) = fst (f (d_db d))" "d_db (snd (on_db f d)) = snd (f (d_db d))"
  by (simp_all add: on_db_def inner_def split_def Let_def)

lemma on_sched_frames [frame_simps]:
  "ran (on_sched f d) = ran d" "world (on_sched f d) = world d" "d_db (on_sched f d) = d_db d"
  "d_sched (on_sched f d) = f (d_sched d)" "d_store (on_sched f d) = d_store d" "d_bus (on_sched f d) = d_bus d"
  "d_metrics (on_sched f d) = d_metrics d" "d_holder (on_sched f d) = d_holder d"
  "daemon.more (on_sched f d) = daemon.more d"
  by (simp_all add: on_sched_def)

lemmas machine_inner [frame_simps] = machine_more_frames [THEN inner_more]

lemma since_frames [frame_simps]: "ran (snd (since pf t d)) = ran d" "inner (snd (since pf t d)) = inner d"
  by (simp_all add: since_def split_def Let_def frame_simps)

lemma setupGitAuth_frames [frame_simps]:
  "ran (snd (setupGitAuth pf cf repo d)) = ran d" "inner (snd (setupGitAuth pf cf repo d)) = inner d"
  by (auto simp: setupGitAuth_def split_def Let_def on_db_frames machine_ran_frames machine_inner
      split: sum.split option.split)

lemma auth_cleanup_frames [frame_simps]:
  "ran (auth_cleanup pf key d) = ran d" "inner (auth_cleanup pf key d) = inner d"
  by (simp_all add: auth_cleanup_def frame_simps split: option.splits)

lemma gitSyncToDisk_inner [frame_simps]: "inner (snd (gitSyncToDisk pf cf repo d)) = inner d"
  by (simp add: gitSyncToDisk_def split_def Let_def frame_simps inner_more [OF SyncRepo_more] split: sum.splits)

lemmas gitSyncToDisk_daemon [frame_simps] = inner_frames [OF gitSyncToDisk_inner]
lemmas HeadSHA_daemon [frame_simps] = more_frames [OF HeadSHA_frames(1)]
lemmas since_daemon [frame_simps] = inner_frames [OF since_frames(2)]
lemmas on_db_daemon [frame_simps] = inner_frames [OF on_db_frames(3)]

definition only_git :: "command list \<Rightarrow> bool" where
  "only_git cs \<longleftrightarrow> list_all (\<lambda>c. cmd_Name c = ''git'') cs"

lemma gitSyncToDisk_ran: "\<exists>cs. ran (snd (gitSyncToDisk pf cf repo d)) = ran d @ cs \<and> only_git cs"
proof (cases "\<exists>dest opts key. safeRepoPath (cf_cloneDir cf) (rdb_Name repo) = Inr dest
    \<and> fst (setupGitAuth pf cf repo d) = Inr (opts, key)")
  case False
  then show ?thesis
    by (intro exI [of _ "[]"])
      (auto simp: gitSyncToDisk_def only_git_def split_def Let_def frame_simps split: sum.splits)
next
  case True
  then obtain dest opts key where a: "safeRepoPath (cf_cloneDir cf) (rdb_Name repo) = Inr dest"
    "fst (setupGitAuth pf cf repo d) = Inr (opts, key)" by blast
  let ?remote = "if rdb_Remote repo = [] then ''origin'' else rdb_Remote repo"
  obtain cs where cs: "ran (snd (SyncRepo (pf_os pf) dest (rdb_URL repo) ?remote (rdb_Branch repo) opts
      (snd (setupGitAuth pf cf repo d)))) = ran (snd (setupGitAuth pf cf repo d)) @ cs" "list_all git_sandboxed cs"
    using SyncRepo_ran [of "pf_os pf" dest "rdb_URL repo" ?remote "rdb_Branch repo" opts "snd (setupGitAuth pf cf repo d)"]
    by blast
  have "list_all (\<lambda>c. cmd_Name c = ''git'') cs" using cs(2) by (auto simp: list_all_iff git_sandboxed_def)
  then show ?thesis
    using a cs(1) by (intro exI [of _ cs]) (simp add: gitSyncToDisk_def only_git_def split_def Let_def frame_simps)
qed

section \<open>Recording\<close>

lemma recordError_effect:
  "\<exists>t. d_sched (recordError pf r si start msg d) = snd (recordSyncFailure r si t (d_sched d))
     \<and> d_store (recordError pf r si start msg d) = store_error r (Redact msg) (d_store d)
     \<and> ran (recordError pf r si start msg d) = ran d"
  by (simp add: recordError_def split_def Let_def frame_simps) blast

lemma recordSuccess_effect:
  "\<exists>t t'. d_sched (recordSuccess pf r si start sha d) = markScheduled r si t (recordSyncSuccess r (d_sched d))
     \<and> d_store (recordSuccess pf r si start sha d) =
         UpdateRepo \<lparr>rs_Name = r, rs_LastSync = t', rs_LastSHA = sha, rs_Status = StatusOK, rs_LastError = []\<rparr> (d_store d)
     \<and> ran (recordSuccess pf r si start sha d) = ran d"
  by (simp add: recordSuccess_def split_def Let_def frame_simps) blast

text \<open>The stored record of a repository, with the zero record for an unknown one.\<close>

definition repo_record :: "Store \<Rightarrow> string \<Rightarrow> RepoState" where
  "repo_record s r = (case GetRepo s r of None \<Rightarrow> zero_RepoState | Some x \<Rightarrow> x)"

lemma GetRepo_name: "store_ok s \<Longrightarrow> GetRepo s r = Some x \<Longrightarrow> rs_Name x = r"
  by (force simp: store_ok_def GetRepo_def dest: map_of_SomeD)

lemma mark_syncing_reads:
  assumes "store_ok s"
  shows "GetRepo (mark_syncing r s) = (GetRepo s)(r \<mapsto> (repo_record s r)\<lparr>rs_Name := r, rs_Status := StatusSyncing\<rparr>)"
  using GetRepo_name [OF assms, of r]
  by (auto simp: mark_syncing_def repo_record_def store_simps fun_eq_iff split: option.splits)

lemma store_error_reads:
  "GetRepo (store_error r msg s) = (GetRepo s)(r \<mapsto> (repo_record s r)\<lparr>rs_Name := r, rs_Status := StatusError, rs_LastError := msg\<rparr>)"
  by (auto simp: store_error_def repo_record_def store_simps fun_eq_iff split: option.splits)

lemma store_frames_sync [frame_simps]:
  "st_stacks (mark_syncing r s) = st_stacks s" "st_stacks (store_error r msg s) = st_stacks s"
  by (simp_all add: mark_syncing_def store_error_def Let_def)

section \<open>The outcome of a sync\<close>

lemma GetRepo_cong: "st_repos s = st_repos s' \<Longrightarrow> GetRepo s = GetRepo s'"
  by (simp add: GetRepo_def fun_eq_iff)

definition succeeded :: "RepoState \<Rightarrow> string \<Rightarrow> scheduler \<Rightarrow> scheduler \<Rightarrow> bool" where
  "succeeded rs n s s' \<longleftrightarrow> rs_Status rs = StatusOK \<and> rs_LastError rs = []
     \<and> backoff_of s' = (backoff_of s)(n := new_backoff)
     \<and> (\<exists>t. repoNextDue s' = mput n t (repoNextDue s))"

definition failed :: "RepoState \<Rightarrow> RepoState \<Rightarrow> duration \<Rightarrow> string \<Rightarrow> scheduler \<Rightarrow> scheduler \<Rightarrow> bool" where
  "failed rs old si n s s' \<longleftrightarrow> rs_Status rs = StatusError \<and> redacted (rs_LastError rs)
     \<and> rs_LastSHA rs = rs_LastSHA old \<and> rs_LastSync rs = rs_LastSync old
     \<and> (\<exists>t. backoff_of s' = (backoff_of s)(n := fail_record si t (backoff_of s n)))
     \<and> repoNextDue s' = repoNextDue s"

lemma failed_after:
  assumes "store_ok (d_store d)" and e: "d_store e = mark_syncing n (d_store d)" "d_sched e = d_sched d"
  shows "\<exists>rs. GetRepo (d_store (recordError pf n si start msg e)) = (GetRepo (d_store d))(n \<mapsto> rs)
      \<and> rs_Name rs = n \<and> rs_LastSHA rs = rs_LastSHA (repo_record (d_store d) n)
      \<and> failed rs (repo_record (d_store d) n) si n (d_sched d) (d_sched (recordError pf n si start msg e))"
proof -
  obtain t where t: "d_sched (recordError pf n si start msg e) = snd (recordSyncFailure n si t (d_sched d))"
    "d_store (recordError pf n si start msg e) = store_error n (Redact msg) (mark_syncing n (d_store d))"
    using recordError_effect [of pf n si start msg e] e by auto
  let ?rs = "(repo_record (mark_syncing n (d_store d)) n)\<lparr>rs_Name := n, rs_Status := StatusError, rs_LastError := Redact msg\<rparr>"
  have reads: "GetRepo (d_store (recordError pf n si start msg e)) = (GetRepo (d_store d))(n \<mapsto> ?rs)"
    unfolding t(2) store_error_reads mark_syncing_reads [OF assms(1)] by simp
  have old: "rs_LastSHA (repo_record (mark_syncing n (d_store d)) n) = rs_LastSHA (repo_record (d_store d) n)"
    "rs_LastSync (repo_record (mark_syncing n (d_store d)) n) = rs_LastSync (repo_record (d_store d) n)"
    by (simp_all add: repo_record_def mark_syncing_reads [OF assms(1)])
  have "backoff_of (snd (recordSyncFailure n si t (d_sched d)))
      = (backoff_of (d_sched d))(n := fail_record si t (backoff_of (d_sched d) n))"
    by (auto simp: fun_eq_iff store_simps)
  moreover have "repoNextDue (snd (recordSyncFailure n si t (d_sched d))) = repoNextDue (d_sched d)"
    by (simp add: recordSyncFailure_def split_def Let_def frame_simps)
  ultimately have "failed ?rs (repo_record (d_store d) n) si n (d_sched d) (d_sched (recordError pf n si start msg e))"
    unfolding failed_def t(1) using old by (auto simp: redaction.sanitize_clean)
  then show ?thesis using reads old by (intro exI [of _ ?rs]) simp
qed

lemma succeeded_after:
  assumes "st_repos (d_store e) = st_repos (mark_syncing n (d_store d))" "d_sched e = d_sched d" "store_ok (d_store d)"
  shows "\<exists>rs. GetRepo (d_store (recordSuccess pf n si start sha e)) = (GetRepo (d_store d))(n \<mapsto> rs)
      \<and> rs_Name rs = n \<and> rs_LastSHA rs = sha
      \<and> succeeded rs n (d_sched d) (d_sched (recordSuccess pf n si start sha e))"
proof -
  obtain t t' where t: "d_sched (recordSuccess pf n si start sha e) = markScheduled n si t (recordSyncSuccess n (d_sched d))"
    "d_store (recordSuccess pf n si start sha e) =
       UpdateRepo \<lparr>rs_Name = n, rs_LastSync = t', rs_LastSHA = sha, rs_Status = StatusOK, rs_LastError = []\<rparr> (d_store e)"
    using recordSuccess_effect [of pf n si start sha e] assms(2) by auto
  let ?rs = "\<lparr>rs_Name = n, rs_LastSync = t', rs_LastSHA = sha, rs_Status = StatusOK, rs_LastError = []\<rparr>"
  have "GetRepo (d_store e) = GetRepo (mark_syncing n (d_store d))" by (rule GetRepo_cong [OF assms(1)])
  then have reads: "GetRepo (d_store (recordSuccess pf n si start sha e)) = (GetRepo (d_store d))(n \<mapsto> ?rs)"
    unfolding t(2) by (auto simp: fun_eq_iff store_simps mark_syncing_reads [OF assms(3)])
  have "backoff_of (markScheduled n si t (recordSyncSuccess n (d_sched d))) = (backoff_of (d_sched d))(n := new_backoff)"
    by (auto simp: fun_eq_iff store_simps)
  moreover have "\<exists>x. repoNextDue (markScheduled n si t (recordSyncSuccess n (d_sched d))) = mput n x (repoNextDue (d_sched d))"
    by (auto simp: markScheduled_def recordSyncSuccess_def split_def Let_def frame_simps)
  ultimately have "succeeded ?rs n (d_sched d) (d_sched (recordSuccess pf n si start sha e))"
    unfolding succeeded_def t(1) by simp
  then show ?thesis using reads by (intro exI [of _ ?rs]) simp
qed

lemma runStacksSync_ran:
  "\<exists>cs. ran (runStacksSync pf sd r cfg d) = ran d @ cs \<and> list_all applies_stack cs"
  using apply_entries_ran [of pf sd r cfg _ d]
  by (auto simp: runStacksSync_def split: option.splits)

lemma recordError_ran [frame_simps]: "ran (recordError pf r si start msg d) = ran d"
  using recordError_effect by metis

lemma recordSuccess_ran [frame_simps]: "ran (recordSuccess pf r si start sha d) = ran d"
  using recordSuccess_effect by metis

lemma syncRepoFromDB_outcome:
  fixes d :: "('w, 'z) daemon_scheme" and repo :: RepoDB and pf :: "'w platform" and cf :: config
    and icfg :: InfisicalConfig and i :: duration
  assumes ok: "store_ok (d_store d)"
  defines "n \<equiv> rdb_Name repo" and "old \<equiv> repo_record (d_store d) (rdb_Name repo)"
    and "d' \<equiv> syncRepoFromDB pf cf repo icfg i d"
  shows "\<exists>rs cs. GetRepo (d_store d') = (GetRepo (d_store d))(n \<mapsto> rs) \<and> rs_Name rs = n
     \<and> (succeeded rs n (d_sched d) (d_sched d') \<or> failed rs old (effectiveInterval repo i) n (d_sched d) (d_sched d'))
     \<and> ran d' = ran d @ cs \<and> (if rs_LastSHA rs = rs_LastSHA old then only_git cs
          else list_all (\<lambda>c. cmd_Name c = ''git'' \<or> applies_stack c) cs)"
proof -
  define start where "start = fst (time_Now (pf_os pf) d)"
  define d3 where "d3 = publish (event ''pulling'' n [] (''Pulling '' @ n))
      (on_store (mark_syncing n) (snd (time_Now (pf_os pf) d)))"
  define si where "si = effectiveInterval repo i"
  have d3: "d_store d3 = mark_syncing n (d_store d)" "d_sched d3 = d_sched d" "ran d3 = ran d"
    by (simp_all add: d3_def frame_simps)
  have sha: "(case GetRepo (mark_syncing n (d_store d)) n of None \<Rightarrow> [] | Some rs \<Rightarrow> rs_LastSHA rs) = rs_LastSHA old"
    by (simp add: mark_syncing_reads [OF ok] old_def n_def)
  obtain g d4 where g: "gitSyncToDisk pf cf repo d3 = (g, d4)" by fastforce
  have d4: "d_store d4 = mark_syncing n (d_store d)" "d_sched d4 = d_sched d"
    using d3 gitSyncToDisk_daemon [of pf cf repo d3] g by simp_all
  obtain cs4 where cs4: "ran d4 = ran d @ cs4" "only_git cs4"
    using gitSyncToDisk_ran [of pf cf repo d3] g d3(3) by auto
  show ?thesis
  proof (cases g)
    case (Inl e)
    let ?e = "publish (event ''error'' n [] (n @ '' pull failed'')) d4"
    have d': "d' = recordError pf n si start (''git sync failed: '' @ e) ?e"
      using g Inl by (simp add: d'_def syncRepoFromDB_def split_def Let_def n_def d3_def start_def si_def)
    show ?thesis
      using failed_after [OF ok, of ?e n pf si start "''git sync failed: '' @ e"] d4 cs4
      unfolding d' by (auto simp: frame_simps old_def n_def si_def)
  next
    case (Inr dest)
    obtain h d5 where h: "HeadSHA (pf_os pf) dest d4 = (h, d5)" by fastforce
    have d5: "d_store d5 = mark_syncing n (d_store d)" "d_sched d5 = d_sched d"
      using d4 HeadSHA_daemon [of "pf_os pf" dest d4] h by simp_all
    obtain cs5 where cs5: "ran d5 = ran d @ cs5" "only_git cs5"
      using HeadSHA_frames(2) [of "pf_os pf" dest d4] h cs4 by (auto simp: only_git_def)
    show ?thesis
    proof (cases h)
      case (Inl e)
      let ?e = "publish (event ''error'' n [] (n @ '' sync failed'')) d5"
      have d': "d' = recordError pf n si start (''resolve HEAD SHA: '' @ e) ?e"
        using g Inr h Inl by (simp add: d'_def syncRepoFromDB_def split_def Let_def n_def d3_def start_def si_def)
      show ?thesis
        using failed_after [OF ok, of ?e n pf si start "''resolve HEAD SHA: '' @ e"] d5 cs5
        unfolding d' by (auto simp: frame_simps old_def n_def si_def)
    next
      case h': (Inr new)
      let ?d6 = "if new \<noteq> rs_LastSHA old then runStacksSync pf (filepath_Join dest (rdb_StacksDir repo)) n icfg d5 else d5"
      let ?e = "publish (event ''done'' n [] (n @ '' up to date'')) ?d6"
      have d3': "GetRepo (d_store (on_store (mark_syncing n) (snd (time_Now (pf_os pf) d)))) n =
          GetRepo (mark_syncing n (d_store d)) n" by (simp add: frame_simps)
      have d': "d' = recordSuccess pf n si start new ?e"
        using g Inr h h' sha
        by (simp add: d'_def syncRepoFromDB_def split_def Let_def n_def [symmetric] d3_def start_def si_def d3')
      have e: "st_repos (d_store ?e) = st_repos (mark_syncing n (d_store d))" "d_sched ?e = d_sched d"
        using d5 by (simp_all add: frame_simps)
      have "\<exists>cs6. ran ?d6 = ran d5 @ cs6 \<and> list_all applies_stack cs6 \<and> (new = rs_LastSHA old \<longrightarrow> cs6 = [])"
        using runStacksSync_ran [of pf "filepath_Join dest (rdb_StacksDir repo)" n icfg d5]
        by (cases "new = rs_LastSHA old") simp_all
      then obtain cs6 where "ran ?d6 = ran d5 @ cs6" "list_all applies_stack cs6" "new = rs_LastSHA old \<longrightarrow> cs6 = []"
        by blast
      then have "ran ?e = ran d @ (cs5 @ cs6)"
        "if new = rs_LastSHA old then only_git (cs5 @ cs6)
         else list_all (\<lambda>c. cmd_Name c = ''git'' \<or> applies_stack c) (cs5 @ cs6)"
        using cs5 by (auto simp: frame_simps only_git_def list_all_iff)
      then show ?thesis
        using succeeded_after [OF e ok, of pf si start new] unfolding d' recordSuccess_ran
        by (metis (no_types, lifting))
    qed
  qed
qed

section \<open>The store only moves by its own operations\<close>

abbreviation store_steps :: "Store \<Rightarrow> Store \<Rightarrow> bool" where
  "store_steps \<equiv> store_step\<^sup>*\<^sup>*"

lemma steps_UpdateStack: "store_steps s t \<Longrightarrow> store_steps s (UpdateStack st t)"
  and steps_UpdateRepo: "store_steps s t \<Longrightarrow> store_steps s (UpdateRepo r t)"
  and steps_containers: "store_steps s t \<Longrightarrow> store_steps s (UpdateStackContainers a b cs t)"
  by (meson rtranclp.rtrancl_into_rtrancl s_stack s_repo s_containers)+

lemma applyStack_steps: "store_steps (d_store d) (d_store (applyStack pf p n r cfg d))"
  by (simp add: applyStack_def split_def Let_def frame_simps steps_UpdateStack)

lemma apply_entries_steps: "store_steps (d_store d) (d_store (apply_entries pf sd r cfg es d))"
proof (induction pf sd r cfg es d rule: apply_entries.induct)
  case (1 pf sd r cfg d)
  show ?case by simp
next
  case (2 pf sd r cfg name isDir es d)
  let ?d1 = "applyStack pf (filepath_Join sd name) name r cfg d"
  have "store_steps (d_store d) (d_store ?d1)" by (rule applyStack_steps)
  then show ?case using 2 by (auto simp: Let_def)
qed

lemma runStacksSync_steps: "store_steps (d_store d) (d_store (runStacksSync pf sd r cfg d))"
  by (simp add: runStacksSync_def apply_entries_steps split: option.splits)

lemma fold_refresh_steps: "store_steps (d_store d) (d_store (fold (refresh_stack pf) sts d))"
proof (induction sts arbitrary: d)
  case Nil
  show ?case by simp
next
  case (Cons st sts)
  have "store_steps (d_store d) (d_store (refresh_stack pf st d))"
    by (simp add: refresh_stack_def split_def Let_def frame_simps steps_containers)
  then show ?case using Cons.IH [of "refresh_stack pf st d"] by simp
qed

lemma refreshContainers_steps: "store_steps (d_store d) (d_store (refreshContainers pf d))"
  using fold_refresh_steps [of "snd (reconnect pf d)"]
  by (auto simp: refreshContainers_def split_def Let_def frame_simps split: option.splits)

lemma mark_syncing_steps: "store_steps s (mark_syncing r s)"
  by (simp add: mark_syncing_def Let_def steps_UpdateRepo)

lemma recordError_steps: "store_steps s (d_store d) \<Longrightarrow> store_steps s (d_store (recordError pf r si start msg d))"
  by (simp add: recordError_def split_def Let_def frame_simps store_error_def steps_UpdateRepo)

lemma recordSuccess_steps: "store_steps s (d_store d) \<Longrightarrow> store_steps s (d_store (recordSuccess pf r si start sha d))"
  by (simp add: recordSuccess_def split_def Let_def frame_simps steps_UpdateRepo)

lemma syncRepoFromDB_steps: "store_steps (d_store d) (d_store (syncRepoFromDB pf cf repo icfg i d))"
  by (auto simp: syncRepoFromDB_def split_def Let_def frame_simps mark_syncing_steps
      intro!: recordError_steps recordSuccess_steps rtranclp_trans [OF _ runStacksSync_steps] split: sum.splits)

lemma store_ok_steps: "store_ok s \<Longrightarrow> store_steps s t \<Longrightarrow> store_ok t"
  by (rule store_machine.run_invariant)

lemma syncRepoFromDB_ok: "store_ok (d_store d) \<Longrightarrow> store_ok (d_store (syncRepoFromDB pf cf repo icfg i d))"
  by (rule store_ok_steps [OF _ syncRepoFromDB_steps])

section \<open>What rounds do to one repository\<close>

lemma syncRepoFromDB_others:
  assumes "store_ok (d_store d)" "n \<noteq> rdb_Name repo"
  shows "GetRepo (d_store (syncRepoFromDB pf cf repo icfg i d)) n = GetRepo (d_store d) n
    \<and> backoff_of (d_sched (syncRepoFromDB pf cf repo icfg i d)) n = backoff_of (d_sched d) n"
  using syncRepoFromDB_outcome [OF assms(1), where repo = repo and pf = pf and cf = cf and icfg = icfg and i = i] assms(2)
  by (auto simp: succeeded_def failed_def)

definition same_repo :: "string \<Rightarrow> ('w, 'z) daemon_scheme \<Rightarrow> ('w, 'z) daemon_scheme \<Rightarrow> bool" where
  "same_repo n d d' \<longleftrightarrow> store_ok (d_store d') \<and> GetRepo (d_store d') n = GetRepo (d_store d) n
     \<and> backoff_of (d_sched d') n = backoff_of (d_sched d) n"

lemma sync_each_suspended:
  assumes "store_ok (d_store d)" "suspended (backoff_of (d_sched d) n)"
  shows "same_repo n d (snd (sync_each pf cf icfg i repos d))"
  using assms
proof (induction repos arbitrary: d)
  case Nil
  then show ?case by (simp add: same_repo_def)
next
  case (Cons repo repos)
  define d1 where "d1 = snd (time_Now (pf_os pf) d)"
  define now where "now = fst (time_Now (pf_os pf) d)"
  define d2 where "d2 = d1\<lparr>d_sched := snd (shouldSkipSync (rdb_Name repo) now (d_sched d1))\<rparr>"
  define d3 where "d3 = snd (time_Now (pf_os pf) d2)"
  define now' where "now' = fst (time_Now (pf_os pf) d2)"
  define skip where "skip = fst (shouldSkipSync (rdb_Name repo) now (d_sched d1))"
  have eq: "sync_each pf cf icfg i (repo # repos) d =
     (if pf_ctx_done pf (world d) then (False, d)
      else if \<not> rdb_Enabled repo then sync_each pf cf icfg i repos d
      else if skip then sync_each pf cf icfg i repos d2
      else if \<not> dueForSync (rdb_Name repo) now' (d_sched d3) then sync_each pf cf icfg i repos d3
      else sync_each pf cf icfg i repos (syncRepoFromDB pf cf repo icfg i d3))"
    by (simp add: split_def Let_def d1_def now_def d2_def d3_def now'_def skip_def)
  have d0: "same_repo n d d" using Cons.prems(1) by (simp add: same_repo_def)
  have d1: "d_store d1 = d_store d" "d_sched d1 = d_sched d" by (simp_all add: d1_def frame_simps)
  have d2: "same_repo n d d2" using Cons.prems(1) d1 by (simp add: same_repo_def d2_def store_simps)
  then have d3: "same_repo n d d3" by (simp add: same_repo_def d3_def frame_simps)
  have step: "same_repo n d (snd (sync_each pf cf icfg i repos e))" if "same_repo n d e" for e
    using Cons.IH [of e] Cons.prems(2) that by (simp add: same_repo_def)
  have "same_repo n d (syncRepoFromDB pf cf repo icfg i d3)" if "\<not> skip"
  proof -
    have "skip" if "rdb_Name repo = n"
      using that Cons.prems(2) d1 by (simp add: skip_def shouldSkipSync_result)
    then have "n \<noteq> rdb_Name repo" using \<open>\<not> skip\<close> by auto
    then show ?thesis
      using d3 syncRepoFromDB_others [of d3 n repo] syncRepoFromDB_ok by (auto simp: same_repo_def)
  qed
  then show ?case unfolding eq using d0 d2 d3 step by simp
qed

lemma refreshContainers_same_repo:
  assumes "store_ok (d_store d)" shows "same_repo n d (refreshContainers pf d)"
  using store_ok_steps [OF assms refreshContainers_steps]
  by (auto simp: same_repo_def frame_simps GetRepo_cong [OF refreshContainers_frames(6)])

lemma same_repo_trans: "same_repo n a b \<Longrightarrow> same_repo n b c \<Longrightarrow> same_repo n a c"
  by (simp add: same_repo_def)

lemma doSyncRound_suspended:
  assumes "store_ok (d_store d)" "suspended (backoff_of (d_sched d) n)"
  shows "same_repo n d (doSyncRound pf cf repos icfg i d)"
proof -
  have s: "same_repo n d (snd (sync_each pf cf icfg i repos d))" by (rule sync_each_suspended [OF assms])
  then have "same_repo n (snd (sync_each pf cf icfg i repos d)) (refreshContainers pf (snd (sync_each pf cf icfg i repos d)))"
    by (intro refreshContainers_same_repo) (simp add: same_repo_def)
  then show ?thesis using s same_repo_trans [OF s] by (auto simp: doSyncRound_def split_def Let_def)
qed

text \<open>A manual round over repositories with distinct names.\<close>

lemma sync_triggered_other:
  assumes "store_ok (d_store d)" "n \<noteq> rdb_Name repo \<or> rdb_Name repo \<notin> S"
  shows "same_repo n d (sync_triggered pf cf S icfg i repo d)"
proof (cases "rdb_Name repo \<in> S")
  case False
  then show ?thesis using assms(1) by (simp add: sync_triggered_def same_repo_def)
next
  case True
  let ?d = "on_sched (resetBackoff (rdb_Name repo)) d"
  have "store_ok (d_store ?d)" "n \<noteq> rdb_Name repo" using assms True by (simp_all add: frame_simps)
  then show ?thesis
    using True syncRepoFromDB_others [of ?d n repo pf cf icfg i] syncRepoFromDB_ok [of ?d pf cf repo icfg i]
    by (simp add: sync_triggered_def same_repo_def frame_simps store_simps)
qed

text \<open>A requested repository ends up synced or failed once, never suspended.\<close>

definition freshly_tried :: "string \<Rightarrow> ('w, 'z) daemon_scheme \<Rightarrow> bool" where
  "freshly_tried n d \<longleftrightarrow> failures (backoff_of (d_sched d) n) \<le> 1 \<and> \<not> suspended (backoff_of (d_sched d) n)
     \<and> (\<exists>rs. GetRepo (d_store d) n = Some rs \<and> rs_Status rs \<in> {StatusOK, StatusError})"

lemma sync_triggered_self:
  assumes "store_ok (d_store d)" "rdb_Name repo \<in> S"
  shows "freshly_tried (rdb_Name repo) (sync_triggered pf cf S icfg i repo d)"
proof -
  let ?d = "on_sched (resetBackoff (rdb_Name repo)) d"
  have "backoff_of (d_sched ?d) (rdb_Name repo) = new_backoff" "store_ok (d_store ?d)"
    using assms(1) by (simp_all add: frame_simps store_simps)
  then show ?thesis
    using syncRepoFromDB_outcome [of ?d, where repo = repo and pf = pf and cf = cf and icfg = icfg and i = i] assms(2)
    by (auto simp: sync_triggered_def freshly_tried_def succeeded_def failed_def fail_record_def new_backoff_def
        maxSyncFailures_def)
qed

lemma sync_triggered_ok:
  "store_ok (d_store d) \<Longrightarrow> store_ok (d_store (sync_triggered pf cf S icfg i repo d))"
  by (simp add: sync_triggered_def syncRepoFromDB_ok frame_simps)

lemma fold_triggered:
  assumes "store_ok (d_store d)" "distinct (map rdb_Name repos)"
  shows "if n \<in> S \<and> n \<in> rdb_Name ` set repos
     then freshly_tried n (fold (sync_triggered pf cf S icfg i) repos d) \<and> store_ok (d_store (fold (sync_triggered pf cf S icfg i) repos d))
     else same_repo n d (fold (sync_triggered pf cf S icfg i) repos d)"
  using assms
proof (induction repos rule: rev_induct)
  case Nil
  then show ?case by (simp add: same_repo_def)
next
  case (snoc repo repos)
  let ?e = "fold (sync_triggered pf cf S icfg i) repos d"
  have ok: "store_ok (d_store ?e)"
    using snoc by (auto simp: same_repo_def split: if_splits)
  consider "n = rdb_Name repo" "n \<in> S" | "n \<noteq> rdb_Name repo \<or> rdb_Name repo \<notin> S" by blast
  then show ?case
  proof cases
    case 1
    then show ?thesis
      using sync_triggered_self [OF ok, of repo S pf cf icfg i] sync_triggered_ok [OF ok, of pf cf S icfg i repo] by simp
  next
    case 2
    then have "same_repo n ?e (sync_triggered pf cf S icfg i repo ?e)"
      by (rule sync_triggered_other [OF ok])
    then show ?thesis
      using snoc 2 by (auto simp: same_repo_def freshly_tried_def split: if_splits)
  qed
qed

lemma manual_round_requested:
  assumes "store_ok (d_store d)" and "distinct (map rdb_Name repos)"
  shows "if n \<in> set queue \<and> n \<in> rdb_Name ` set repos then freshly_tried n (manual_round pf cf queue repos i d)
    else GetRepo (d_store (manual_round pf cf queue repos i d)) n = GetRepo (d_store d) n
       \<and> backoff_of (d_sched (manual_round pf cf queue repos i d)) n = backoff_of (d_sched d) n"
proof -
  let ?d1 = "snd (loadInfisicalFromDB pf cf d)" and ?icfg = "fst (loadInfisicalFromDB pf cf d)"
  let ?e = "fold (sync_triggered pf cf (set queue) ?icfg i) repos ?d1"
  have d1: "inner ?d1 = inner d"
    by (simp add: loadInfisicalFromDB_def split_def Let_def frame_simps split: sum.splits)
  have ok: "store_ok (d_store ?d1)" using assms(1) inner_frames(2) [OF d1] by simp
  note f = fold_triggered [OF ok assms(2), of n "set queue" pf cf ?icfg i]
  have "store_ok (d_store ?e)" using f by (auto simp: same_repo_def split: if_splits)
  then have "same_repo n ?e (refreshContainers pf ?e)" by (rule refreshContainers_same_repo)
  moreover have "manual_round pf cf queue repos i d = refreshContainers pf ?e"
    by (simp add: manual_round_def split_def Let_def)
  ultimately show ?thesis
    using f inner_frames(1,2) [OF d1] by (auto simp: same_repo_def freshly_tried_def split: if_splits)
qed

section \<open>Properties\<close>

lemma safeRepoPath_valid:
  "safeRepoPath c n = (case ValidateRepoName n of Inl e \<Rightarrow> Inl e | Inr _ \<Rightarrow> Inr (filepath_Join c n))"
proof (cases "ValidateRepoName n")
  case (Inl e)
  then show ?thesis by (simp add: safeRepoPath_def)
next
  case (Inr u)
  then have f: "file_name n" using ValidateRepoName_file_name by simp
  then have "n \<noteq> ''..''" "\<not> HasPrefix n ''../''"
    by (auto simp: file_name_def HasPrefix_def prefix_def)
  then show ?thesis using Inr filepath_Rel_Join_name [OF f, of c] by (simp add: safeRepoPath_def)
qed

text \<open>
  C13. A repository is cloned directly inside the clone directory and nowhere else: the path
  computed for an accepted name is the clone directory's own location followed by exactly that
  one name, so no name escapes it or reaches a nested path, and two repositories never share a
  directory. The containment check never rejects a name the validator accepts.
\<close>

theorem safeRepoPath_contained:
  assumes "safeRepoPath c n = Inr dest" and "safeRepoPath c n' = Inr dest'"
  shows "location dest = (IsAbs c, snd (location c) @ [n]) \<and> (dest = dest') = (n = n')
    \<and> (ValidateRepoName x = Inr ()) = (\<exists>p. safeRepoPath c x = Inr p)"
proof -
  have loc: "location p = (IsAbs c, snd (location c) @ [m])" if "safeRepoPath c m = Inr p" for m p
    using that location_Join_name ValidateRepoName_file_name by (auto simp: safeRepoPath_valid split: sum.splits)
  have "(ValidateRepoName x = Inr ()) = (\<exists>p. safeRepoPath c x = Inr p)"
    by (auto simp: safeRepoPath_valid split: sum.splits)
  then show ?thesis using loc [OF assms(1)] loc [OF assms(2)] assms by auto
qed

theorem safeRepoPath_contained_witness:
  "location ''/var/lib/stackd/repos/dockers'' = (True, [''var'', ''lib'', ''stackd'', ''repos'', ''dockers''])"
proof -
  have "safeRepoPath ''/var/lib/stackd/repos'' ''dockers'' = Inr ''/var/lib/stackd/repos/dockers''" by code_simp
  moreover have "IsAbs ''/var/lib/stackd/repos''"
    "snd (location ''/var/lib/stackd/repos'') = [''var'', ''lib'', ''stackd'', ''repos'']" by code_simp+
  ultimately show ?thesis using safeRepoPath_contained by fastforce
qed


definition demo_cf :: config where
  "demo_cf = \<lparr>cf_cloneDir = ''/repos'', cf_cryptoKey = replicate 32 (CHR ''k''), cf_sshTempDir = ''/repos/.ssh''\<rparr>"

definition demo_icfg :: InfisicalConfig where
  "demo_icfg = \<lparr>ic_Token = [], ic_Env = ''prod'', ic_URL = [], ic_ProjectID = []\<rparr>"


text \<open>
  C33. Nothing is deployed unless there is something new: if the commit recorded after a sync is the
  one recorded before it (no new commit, or any failure along the way), the sync ran git commands
  only and no stack was applied. In every case the commands are git's and applies of stacks.
\<close>

theorem no_deploy_without_new_commit:
  assumes "reach (\<lambda>s. s = store_New) store_step (d_store d)"
  shows "\<exists>cs. ran (syncRepoFromDB pf cf repo icfg i d) = ran d @ cs
    \<and> (if rs_LastSHA (repo_record (d_store (syncRepoFromDB pf cf repo icfg i d)) (rdb_Name repo))
          = rs_LastSHA (repo_record (d_store d) (rdb_Name repo))
       then only_git cs else list_all (\<lambda>c. cmd_Name c = ''git'' \<or> applies_stack c) cs)"
  using syncRepoFromDB_outcome [OF store_machine.reach_invariant [OF assms],
      where repo = repo and pf = pf and cf = cf and icfg = icfg and i = i]
  by (auto simp: repo_record_def)

theorem no_deploy_without_new_commit_witness:
  "\<exists>cs. ran (syncRepoFromDB demo_pf demo_cf demo_repo demo_icfg 0 (demo_daemon [])) = cs
     \<and> list_all (\<lambda>c. cmd_Name c = ''git'' \<or> applies_stack c) cs"
proof -
  have "reach (\<lambda>s. s = store_New) store_step (d_store (demo_daemon []))"
    by (rule reach_init) (simp add: demo_daemon_def)
  from no_deploy_without_new_commit [OF this, of demo_pf demo_cf demo_repo demo_icfg 0] show ?thesis
    by (auto simp: demo_daemon_def only_git_def list_all_iff split: if_splits)
qed


definition ssh_daemon :: "(string \<times> string) list daemon" where
  "ssh_daemon = (demo_daemon [])\<lparr>d_db := (fresh_database [])\<lparr>db_ssh_keys :=
     [\<lparr>ssh_id = ''k1'', ssh_name = ''deploy'', ssh_private_key_enc = StdEncode ''0123456789abPRIVtag'',
       ssh_public_key = ''pub'', ssh_created_at = []\<rparr>]\<rparr>\<rparr>"


text \<open>
  C22. A suspended repository is left alone by every scheduled round, whatever the other
  repositories do: its recorded state and its backoff are the same after the round.
\<close>

theorem rounds_respect_suspension:
  assumes "reach (\<lambda>s. s = store_New) store_step (d_store d)" and "suspended (backoff_of (d_sched d) n)"
  shows "GetRepo (d_store (doSyncRound pf cf repos icfg i d)) n = GetRepo (d_store d) n
    \<and> backoff_of (d_sched (doSyncRound pf cf repos icfg i d)) n = backoff_of (d_sched d) n"
  using doSyncRound_suspended [OF store_machine.reach_invariant [OF assms(1)] assms(2), of pf cf repos icfg i]
  by (simp add: same_repo_def)

definition suspended_daemon :: "(string \<times> string) list daemon" where
  "suspended_daemon = (demo_daemon [])\<lparr>d_sched :=
     sched_run (replicate 10 (SyncFailed ''dockers'' (60 * Second) 5)) new_scheduler\<rparr>"

theorem rounds_respect_suspension_witness:
  "GetRepo (d_store (doSyncRound demo_pf demo_cf [demo_repo] demo_icfg 0 suspended_daemon)) ''dockers'' = None"
proof -
  have r: "reach (\<lambda>s. s = store_New) store_step (d_store suspended_daemon)"
    by (rule reach_init) (simp add: suspended_daemon_def demo_daemon_def)
  have "length (recent_failures ''dockers'' (rev (replicate 10 (SyncFailed ''dockers'' (60 * Second) 5)))) = 10" by code_simp
  then have s: "suspended (backoff_of (d_sched suspended_daemon) ''dockers'')"
    by (simp add: suspended_daemon_def backoff_of_run maxSyncFailures_def)
  show ?thesis
    using rounds_respect_suspension [OF r s, of demo_pf demo_cf "[demo_repo]" demo_icfg 0]
    by (simp add: suspended_daemon_def demo_daemon_def store_New_def GetRepo_def)
qed

text \<open>
  A manual trigger always gets through: every requested repository of the list is synced in the
  manual round whatever its backoff was, ends \<open>ok\<close> or \<open>error\<close> with at most one failure on record
  and not suspended, and a repository nobody asked for keeps its state and its backoff.
\<close>

theorem manual_round_syncs_requested:
  assumes "reach (\<lambda>s. s = store_New) store_step (d_store d)" and "distinct (map rdb_Name repos)"
  shows "if n \<in> set queue \<and> n \<in> rdb_Name ` set repos then freshly_tried n (manual_round pf cf queue repos i d)
    else GetRepo (d_store (manual_round pf cf queue repos i d)) n = GetRepo (d_store d) n
       \<and> backoff_of (d_sched (manual_round pf cf queue repos i d)) n = backoff_of (d_sched d) n"
  by (rule manual_round_requested [OF store_machine.reach_invariant [OF assms(1)] assms(2)])

theorem manual_round_syncs_requested_witness:
  "freshly_tried ''dockers'' (manual_round demo_pf demo_cf [''dockers''] [demo_repo] 0 suspended_daemon)"
proof -
  have r: "reach (\<lambda>s. s = store_New) store_step (d_store suspended_daemon)"
    by (rule reach_init) (simp add: suspended_daemon_def demo_daemon_def)
  show ?thesis
    using manual_round_syncs_requested [OF r, of "[demo_repo]" "''dockers''" "[''dockers'']" demo_pf demo_cf 0]
    by (simp add: demo_repo_def)
qed

text \<open>
  C38. Changing a repository's URL has no effect once it is cloned: while the clone directory holds a
  \<^verbatim>\<open>.git\<close>, a sync with any other URL runs the same commands, ends in the same result and leaves the
  same state as before, so the repository keeps following the old remote.
\<close>

theorem url_change_ignored:
  assumes "safeRepoPath (cf_cloneDir cf) (rdb_Name repo) = Inr dest"
    and "os_Stat_ok (pf_os pf) (world (snd (setupGitAuth pf cf repo d))) (filepath_Join dest ''.git'')"
  shows "gitSyncToDisk pf cf (repo\<lparr>rdb_URL := url\<rparr>) d = gitSyncToDisk pf cf repo d"
proof -
  have "setupGitAuth pf cf (repo\<lparr>rdb_URL := url\<rparr>) d = setupGitAuth pf cf repo d"
    by (simp add: setupGitAuth_def split_def Let_def)
  moreover have "SyncRepo (pf_os pf) dest url remote branch opts (snd (setupGitAuth pf cf repo d))
      = SyncRepo (pf_os pf) dest (rdb_URL repo) remote branch opts (snd (setupGitAuth pf cf repo d))" for remote branch opts
    using assms(2) by (simp add: SyncRepo_def)
  ultimately show ?thesis
    using assms(1) by (cases "fst (setupGitAuth pf cf repo d)") (simp_all add: gitSyncToDisk_def split_def Let_def)
qed

theorem url_change_ignored_witness:
  "ran (snd (gitSyncToDisk demo_pf demo_cf (demo_repo\<lparr>rdb_URL := ''https://new.example/dockers''\<rparr>)
      (demo_daemon [(''/repos/dockers/.git'', [])])))
   = ran (snd (gitSyncToDisk demo_pf demo_cf demo_repo (demo_daemon [(''/repos/dockers/.git'', [])])))"
proof -
  have "safeRepoPath (cf_cloneDir demo_cf) (rdb_Name demo_repo) = Inr ''/repos/dockers''" by code_simp
  moreover have "os_Stat_ok (pf_os demo_pf)
      (world (snd (setupGitAuth demo_pf demo_cf demo_repo (demo_daemon [(''/repos/dockers/.git'', [])]))))
      (filepath_Join ''/repos/dockers'' ''.git'')" by code_simp
  ultimately show ?thesis by (subst url_change_ignored) simp_all
qed

end
