(* ===== verification/Server_Core.thy ===== *)
theory Server_Core
  imports Sync
begin

text \<open>
  The dashboard's HTTP server (\<^verbatim>\<open>src/internal/server/server.go\<close>): routing, the token middleware, the
  rate limiter, the trigger queue it shares with the main loop, the in-flight table of stack
  applies, and every handler of that file. The settings API is in \<open>Settings\<close>, the composition of
  all of it in \<open>Serve\<close>. A handler is a function from the request and the service's state to the
  response and the new state; \<^verbatim>\<open>net/http\<close> delivers the request with its path already decoded into
  segments, and its path is their join.
\<close>

section \<open>Requests and responses\<close>

record request =
  rq_Method :: string
  rq_Segs :: "string list"
  rq_Canonical :: bool
  rq_Host :: string
  rq_Authorization :: string
  rq_Origin :: string
  rq_Query :: "(string \<times> string) list"

definition rq_Path :: "request \<Rightarrow> string" where
  "rq_Path rq = ''/'' @ Join (rq_Segs rq) ''/''"

text \<open>\<^verbatim>\<open>r.URL.Query().Get(k)\<close>: the first value, or the empty string.\<close>

definition query_Get :: "request \<Rightarrow> string \<Rightarrow> string" where
  "query_Get rq k = (case map_of (rq_Query rq) k of None \<Rightarrow> [] | Some v \<Rightarrow> v)"

record repoView =
  rv_Name :: string
  rv_LastSync :: gotime
  rv_LastSHA :: string
  rv_Status :: SyncStatus
  rv_LastError :: string
  rv_Infisical :: InfisicalState
  rv_Stacks :: "StackState list"

text \<open>JSON bodies are kept as the values that are encoded.\<close>

datatype body =
    NoBody
  | TextBody string
  | FieldsBody "(string \<times> string) list"
  | FlagBody string bool
  | ReadyBody bool bool
  | StatusBody "repoView list" InfisicalState
  | StaticBody string

record 'b response =
  resp_Code :: nat
  resp_Headers :: "(string, string) gomap"
  resp_Body :: 'b

definition set_header :: "string \<Rightarrow> string \<Rightarrow> 'b response \<Rightarrow> 'b response" where
  "set_header k v r = r\<lparr>resp_Headers := mput k v (resp_Headers r)\<rparr>"

definition json_response :: "nat \<Rightarrow> 'b \<Rightarrow> 'b response" where
  "json_response code b = \<lparr>resp_Code = code, resp_Headers = [(''Content-Type'', ''application/json'')], resp_Body = b\<rparr>"

definition http_Error :: "(string \<Rightarrow> 'b) \<Rightarrow> string \<Rightarrow> nat \<Rightarrow> 'b response" where
  "http_Error txt msg code =
     \<lparr>resp_Code = code,
      resp_Headers = [(''Content-Type'', ''text/plain; charset=utf-8''), (''X-Content-Type-Options'', ''nosniff'')],
      resp_Body = txt (msg @ [newline])\<rparr>"

section \<open>The service\<close>

record rateLimiter =
  rl_lastTime :: "(string, gotime) gomap"
  rl_window :: duration

text \<open>
  The server's fields next to the daemon it shares the store, the bus and the holder with. The
  queue is the buffered channel \<^verbatim>\<open>syncTrigger\<close>; the jobs are the goroutines \<^verbatim>\<open>handleApplyStack\<close> has
  started and that have not finished; the refreshes are those \<^verbatim>\<open>handleContainerAction\<close> has started.
\<close>

record 'w service = "'w daemon" +
  sv_trigger :: "string list"
  sv_limiter :: rateLimiter
  sv_applying :: "string set"
  sv_jobs :: "(string \<times> string) list"
  sv_refreshes :: "string list"
  sv_applyStack_set :: bool
  sv_token :: string
  sv_startTime :: gotime
  sv_version :: string
  sv_cloneDir :: string
  sv_dbPath :: string

definition SetToken :: "string \<Rightarrow> ('w, 'z) service_scheme \<Rightarrow> ('w, 'z) service_scheme" where
  "SetToken t s = s\<lparr>sv_token := t\<rparr>"

definition SetSystemInfo :: "string \<Rightarrow> string \<Rightarrow> string \<Rightarrow> ('w, 'z) service_scheme \<Rightarrow> ('w, 'z) service_scheme" where
  "SetSystemInfo version cloneDir dbPath s = s\<lparr>sv_version := version, sv_cloneDir := cloneDir, sv_dbPath := dbPath\<rparr>"

definition SetApplyStack :: "('w, 'z) service_scheme \<Rightarrow> ('w, 'z) service_scheme" where
  "SetApplyStack s = s\<lparr>sv_applyStack_set := True\<rparr>"

definition newRateLimiter :: "duration \<Rightarrow> rateLimiter" where
  "newRateLimiter window = \<lparr>rl_lastTime = [], rl_window = window\<rparr>"

definition limiter_window :: "string \<Rightarrow> duration" where
  "limiter_window env = (case Atoi env of Some v \<Rightarrow> if sint v > 0 then v * Second else 5 * Second | None \<Rightarrow> 5 * Second)"

section \<open>Rate limiting\<close>

definition limiter_store :: "'w platform \<Rightarrow> string \<Rightarrow> ('w, 'z) service_scheme \<Rightarrow> bool \<times> ('w, 'z) service_scheme" where
  "limiter_store pf key s =
     (let (now, s1) = time_Now (pf_os pf) s; rl = sv_limiter s1 in
      (True, s1\<lparr>sv_limiter := rl\<lparr>rl_lastTime := mput key now (rl_lastTime rl)\<rparr>\<rparr>))"

definition rl_Allow :: "'w platform \<Rightarrow> string \<Rightarrow> ('w, 'z) service_scheme \<Rightarrow> bool \<times> ('w, 'z) service_scheme" where
  "rl_Allow pf key s =
     (case mget (rl_lastTime (sv_limiter s)) key of
        Some prev \<Rightarrow>
          (let (elapsed, s1) = since pf prev s in
           if sint elapsed < sint (rl_window (sv_limiter s1)) then (False, s1) else limiter_store pf key s1)
      | None \<Rightarrow> limiter_store pf key s)"

section \<open>The trigger queue\<close>

definition trigger_cap :: nat where
  "trigger_cap = 16"

definition trigger_send :: "string \<Rightarrow> string list \<Rightarrow> string list" where
  "trigger_send r q = (if length q < trigger_cap then q @ [r] else q)"

definition trigger_sent :: "string \<Rightarrow> string list \<Rightarrow> bool" where
  "trigger_sent r q \<longleftrightarrow> length q < trigger_cap"

definition trigger_recv :: "string list \<Rightarrow> (string \<times> string list) option" where
  "trigger_recv q = (case q of [] \<Rightarrow> None | r # q' \<Rightarrow> Some (r, q'))"

interpretation trigger: bounded_channel trigger_cap "\<lambda>q. q" trigger_send trigger_sent trigger_recv
  by unfold_locales (auto simp: trigger_send_def trigger_sent_def trigger_recv_def)

section \<open>Authorisation\<close>

definition ctEq :: "string \<Rightarrow> string \<Rightarrow> bool" where
  "ctEq a b \<longleftrightarrow> length a = length b \<and> list_all2 (=) a b"

definition open_path :: "string \<Rightarrow> bool" where
  "open_path path \<longleftrightarrow> path = ''/healthz'' \<or> path = ''/readyz'' \<or> path = ''/metrics'' \<or> path = ''/''
     \<or> HasPrefix path ''/assets/'' \<or> \<not> HasPrefix path ''/api/''"

definition provided_token :: "request \<Rightarrow> string" where
  "provided_token rq = (if HasPrefix (rq_Authorization rq) ''Bearer ''
     then TrimPrefix (rq_Authorization rq) ''Bearer '' else [])"

definition token_accepted :: "string \<Rightarrow> request \<Rightarrow> bool" where
  "token_accepted token rq \<longleftrightarrow>
     \<not> (\<not> ctEq (provided_token rq) token
        \<and> \<not> (query_Get rq ''token'' \<noteq> [] \<and> ctEq (query_Get rq ''token'') token))"

definition authMiddleware ::
    "(string \<Rightarrow> 'b) \<Rightarrow> (request \<Rightarrow> ('w, 'z) service_scheme \<Rightarrow> 'b response \<times> ('w, 'z) service_scheme) \<Rightarrow> request
       \<Rightarrow> ('w, 'z) service_scheme \<Rightarrow> 'b response \<times> ('w, 'z) service_scheme" where
  "authMiddleware txt handler rq s =
     (if open_path (rq_Path rq) then handler rq s
      else if sv_token s = [] then (http_Error txt ''Unauthorized'' 401, s)
      else if \<not> token_accepted (sv_token s) rq then
        (set_header ''WWW-Authenticate'' ''Bearer realm=\"stackd\"'' (http_Error txt ''Unauthorized'' 401), s)
      else handler rq s)"

text \<open>The headers set before the handler runs are kept unless the handler overwrites them.\<close>

definition securityHeaders ::
    "(request \<Rightarrow> ('w, 'z) service_scheme \<Rightarrow> 'b response \<times> ('w, 'z) service_scheme) \<Rightarrow> request
       \<Rightarrow> ('w, 'z) service_scheme \<Rightarrow> 'b response \<times> ('w, 'z) service_scheme" where
  "securityHeaders handler rq s =
     (let (r, s1) = handler rq s in
      (r\<lparr>resp_Headers := fold (\<lambda>(k, v) h. mput k v h) (resp_Headers r)
           [(''X-Content-Type-Options'', ''nosniff''), (''X-Frame-Options'', ''DENY''),
            (''Referrer-Policy'', ''strict-origin-when-cross-origin'')]\<rparr>, s1))"

section \<open>Handlers\<close>

definition json_fields :: "nat \<Rightarrow> (string \<times> string) list \<Rightarrow> body response" where
  "json_fields code kvs = json_response code (FieldsBody kvs)"

definition text_error :: "string \<Rightarrow> nat \<Rightarrow> body response" where
  "text_error msg code = http_Error TextBody msg code"

definition handle_healthz :: "body response" where
  "handle_healthz = json_fields 200 [(''status'', ''ok'')]"

definition handle_readyz :: "'w platform \<Rightarrow> ('w, 'z) service_scheme \<Rightarrow> body response" where
  "handle_readyz pf s =
     (let dockerOK = holder_Get (d_holder s) \<noteq> None;
          synced = (GetAllRepos (pf_orders pf) (d_store s) = []
                    \<or> list_ex (\<lambda>st. \<not> IsZero (ss_LastApply st)) (GetAllStacks (pf_orders pf) (d_store s))) in
      if dockerOK \<and> synced then json_fields 200 [(''status'', ''ready'')]
      else json_response 503 (ReadyBody dockerOK synced))"

text \<open>The stacks of a snapshot, grouped by the name of their repository.\<close>

definition group_stacks :: "StackState list \<Rightarrow> (string, StackState list) gomap" where
  "group_stacks stacks =
     fold (\<lambda>st byRepo. mput (ss_RepoName st) (mget0 [] byRepo (ss_RepoName st) @ [st]) byRepo) stacks []"

definition repo_view :: "InfisicalState \<Rightarrow> (string, StackState list) gomap \<Rightarrow> RepoState \<Rightarrow> repoView" where
  "repo_view infisical byRepo r =
     \<lparr>rv_Name = rs_Name r, rv_LastSync = rs_LastSync r, rv_LastSHA = rs_LastSHA r, rv_Status = rs_Status r,
      rv_LastError = rs_LastError r, rv_Infisical = infisical, rv_Stacks = mget0 [] byRepo (rs_Name r)\<rparr>"

definition handleStatus :: "'w platform \<Rightarrow> ('w, 'z) service_scheme \<Rightarrow> body response" where
  "handleStatus pf s =
     (let full = GetAll (pf_orders pf) (d_store s); byRepo = group_stacks (fs_Stacks full) in
      json_response 200 (StatusBody (map (repo_view (fs_Infisical full) byRepo) (fs_Repos full)) (fs_Infisical full)))"

definition handleSync :: "'w platform \<Rightarrow> string \<Rightarrow> ('w, 'z) service_scheme \<Rightarrow> body response \<times> ('w, 'z) service_scheme" where
  "handleSync pf repo s =
     (if repo = [] then (text_error ''missing repo name'' 400, s)
      else
        (let (allowed, s1) = rl_Allow pf repo s in
         if \<not> allowed then (json_fields 429 [(''status'', ''rate_limited''), (''repo'', repo)], s1)
         else if trigger_sent repo (sv_trigger s1)
         then (json_fields 200 [(''status'', ''queued''), (''repo'', repo)],
               s1\<lparr>sv_trigger := trigger_send repo (sv_trigger s1)\<rparr>)
         else (json_fields 202 [(''status'', ''already_queued''), (''repo'', repo)], s1)))"

definition stack_dir_of :: "StackState list \<Rightarrow> string \<Rightarrow> string \<Rightarrow> string" where
  "stack_dir_of stacks repo stack =
     (case find (\<lambda>st. ss_RepoName st = repo \<and> ss_Name st = stack) stacks of None \<Rightarrow> [] | Some st \<Rightarrow> ss_StackDir st)"

fun first_readable :: "'w os \<Rightarrow> 'w \<Rightarrow> string \<Rightarrow> string list \<Rightarrow> string option" where
  "first_readable os w dir [] = None"
| "first_readable os w dir (name # names) =
     (case os_ReadNoFollow os w (filepath_Join dir name) of
        Some data \<Rightarrow> Some data
      | None \<Rightarrow> first_readable os w dir names)"

definition handleComposeFile :: "'w platform \<Rightarrow> string \<Rightarrow> string \<Rightarrow> ('w, 'z) service_scheme \<Rightarrow> body response" where
  "handleComposeFile pf repo stack s =
     (let dir = stack_dir_of (fs_Stacks (GetAll (pf_orders pf) (d_store s))) repo stack in
      if dir = [] then text_error ''stack not found'' 404
      else (case first_readable (pf_os pf) (world s) dir compose_Candidates of
              None \<Rightarrow> text_error ''compose file not found'' 404
            | Some content \<Rightarrow>
                \<lparr>resp_Code = 200, resp_Headers = [(''Content-Type'', ''text/plain; charset=utf-8'')],
                 resp_Body = TextBody content\<rparr>))"

definition handleApplyStack :: "string \<Rightarrow> string \<Rightarrow> ('w, 'z) service_scheme \<Rightarrow> body response \<times> ('w, 'z) service_scheme" where
  "handleApplyStack repo stack s =
     (if repo = [] \<or> stack = [] then (text_error ''missing repo or stack'' 400, s)
      else if GetStack (d_store s) repo stack = None then (text_error ''stack not found'' 404, s)
      else if \<not> sv_applyStack_set s then (text_error ''apply not configured'' 503, s)
      else if stack_key repo stack \<in> sv_applying s then
        (json_fields 409 [(''status'', ''already_applying''), (''repo'', repo), (''stack'', stack)], s)
      else (json_fields 200 [(''status'', ''applying'')],
            s\<lparr>sv_applying := insert (stack_key repo stack) (sv_applying s), sv_jobs := sv_jobs s @ [(repo, stack)]\<rparr>))"

text \<open>The goroutine: the callback, then the deferred removal from the table.\<close>

definition job_done :: "string \<times> string \<Rightarrow> ('w, 'z) service_scheme \<Rightarrow> ('w, 'z) service_scheme" where
  "job_done job s =
     s\<lparr>sv_applying := sv_applying s - {stack_key (fst job) (snd job)}, sv_jobs := remove1 job (sv_jobs s)\<rparr>"

definition apply_job :: "'w platform \<Rightarrow> config \<Rightarrow> string \<times> string \<Rightarrow> ('w, 'z) service_scheme \<Rightarrow> ('w, 'z) service_scheme" where
  "apply_job pf cf job s = job_done job (onApply pf cf (fst job) (snd job) s)"

text \<open>Containers: the refresh that follows a successful action runs later, in a goroutine of its own.\<close>

definition refresh_named :: "'w platform \<Rightarrow> string \<Rightarrow> StackState \<Rightarrow> ('w, 'z) daemon_scheme \<Rightarrow> ('w, 'z) daemon_scheme" where
  "refresh_named pf containerName st s =
     (let (res, s1) = ListStackContainerDetails (pf_ut pf) (pf_api pf) (ss_StackDir st) s in
      case res of
        Inl _ \<Rightarrow> s1
      | Inr details \<Rightarrow>
          if list_ex (\<lambda>d. ct_Name d = containerName) details
          then on_store (UpdateStackContainers (ss_RepoName st) (ss_Name st) details) s1 else s1)"

definition refreshContainerState :: "'w platform \<Rightarrow> string \<Rightarrow> ('w, 'z) daemon_scheme \<Rightarrow> ('w, 'z) daemon_scheme" where
  "refreshContainerState pf containerName s =
     (if holder_Get (d_holder s) = None then s
      else fold (refresh_named pf containerName) (GetAllStacks (pf_orders pf) (d_store s)) s)"

definition handleContainerAction ::
    "'w platform \<Rightarrow> string \<Rightarrow> string \<Rightarrow> ('w, 'z) service_scheme \<Rightarrow> body response \<times> ('w, 'z) service_scheme" where
  "handleContainerAction pf name action s =
     (if holder_Get (d_holder s) = None then (json_fields 503 [(''error'', ''docker unavailable'')], s)
      else if action \<notin> {''start'', ''stop'', ''restart''} then (json_fields 400 [(''error'', ''unknown action'')], s)
      else
        (let (r, s1) = (if action = ''start'' then StartContainer (pf_api pf) name s
                        else if action = ''stop'' then StopContainer (pf_api pf) name s
                        else RestartContainer (pf_api pf) name s) in
         case r of
           Inl e \<Rightarrow> (json_fields 500 [(''error'', e)], s1)
         | Inr _ \<Rightarrow> (json_response 200 (FlagBody ''ok'' True), s1\<lparr>sv_refreshes := sv_refreshes s1 @ [name]\<rparr>)))"

definition refresh_job :: "'w platform \<Rightarrow> string \<Rightarrow> ('w, 'z) service_scheme \<Rightarrow> ('w, 'z) service_scheme" where
  "refresh_job pf name s =
     (let s1 = refreshContainerState pf name s in s1\<lparr>sv_refreshes := remove1 name (sv_refreshes s1)\<rparr>)"

text \<open>\<^verbatim>\<open>uptime\<close> is the argument \<open>shown\<close>: the rounded duration as \<^verbatim>\<open>time.Duration\<close> prints it.\<close>

definition handleSystemInfo ::
    "'w platform \<Rightarrow> (duration \<Rightarrow> string) \<Rightarrow> string \<Rightarrow> ('w, 'z) service_scheme \<Rightarrow> body response \<times> ('w, 'z) service_scheme" where
  "handleSystemInfo pf shown goVersion s =
     (let (uptime, s1) = since pf (sv_startTime s) s in
      (json_fields 200 [(''version'', sv_version s1), (''uptime'', shown uptime), (''cloneDir'', sv_cloneDir s1),
                        (''dbPath'', sv_dbPath s1), (''goVersion'', goVersion)], s1))"

section \<open>Streams\<close>

definition sse_headers :: "(string, string) gomap" where
  "sse_headers = [(''Content-Type'', ''text/event-stream''), (''Cache-Control'', ''no-cache''),
     (''Connection'', ''keep-alive''), (''X-Accel-Buffering'', ''no'')]"

definition sse_frame :: "string \<Rightarrow> string" where
  "sse_frame line = ''data: '' @ line @ [newline, newline]"

text \<open>One \<^verbatim>\<open>Write\<close> of the log stream.\<close>

definition sse_Write :: "string \<Rightarrow> string" where
  "sse_Write p = concat (map sse_frame (filter (\<lambda>line. line \<noteq> []) (Split newline p)))"

definition handleLogs :: "'w platform \<Rightarrow> string \<Rightarrow> ('w, 'z) daemon_scheme \<Rightarrow> body response \<times> ('w, 'z) daemon_scheme" where
  "handleLogs pf container s =
     (if container = [] then (text_error ''missing container name'' 400, s)
      else if holder_Get (d_holder s) = None then (text_error ''Docker client unavailable'' 503, s)
      else
        (let ((chunks, err), s1) = StreamLogs (pf_api pf) container s;
             out = concat (map sse_Write chunks)
                   @ (case err of None \<Rightarrow> [] | Some e \<Rightarrow> sse_Write (''error: '' @ e)) in
         (\<lparr>resp_Code = 200, resp_Headers = sse_headers, resp_Body = TextBody out\<rparr>, s1)))"

text \<open>
  The activity stream subscribes, forwards one event per frame, and unsubscribes when the client
  leaves. \<open>enc\<close> is the JSON encoding of an event.
\<close>

definition activity_open :: "('w, 'z) daemon_scheme \<Rightarrow> (nat \<times> body response) \<times> ('w, 'z) daemon_scheme" where
  "activity_open s =
     (let (ch, b) = Subscribe (d_bus s) in
      ((ch, \<lparr>resp_Code = 200, resp_Headers = sse_headers, resp_Body = NoBody\<rparr>), s\<lparr>d_bus := b\<rparr>))"

definition activity_forward ::
    "(ActivityEvent \<Rightarrow> string) \<Rightarrow> nat \<Rightarrow> ('w, 'z) daemon_scheme \<Rightarrow> string option \<times> ('w, 'z) daemon_scheme" where
  "activity_forward enc ch s =
     (let (r, b) = bus_receive ch (d_bus s) in
      (case r of Inl _ \<Rightarrow> None | Inr e \<Rightarrow> Some (sse_frame (enc e)), s\<lparr>d_bus := b\<rparr>))"

definition activity_close :: "nat \<Rightarrow> ('w, 'z) daemon_scheme \<Rightarrow> ('w, 'z) daemon_scheme option" where
  "activity_close ch s = map_option (\<lambda>b. s\<lparr>d_bus := b\<rparr>) (bus_cancel ch (d_bus s))"

section \<open>Exec sessions\<close>

definition checkOrigin :: "'w platform \<Rightarrow> request \<Rightarrow> 'w \<Rightarrow> bool" where
  "checkOrigin pf rq w =
     (let origin = rq_Origin rq in
      if origin = [] then True
      else (case url_Parse (pf_ut pf) (pf_ip6 pf) origin of
              None \<Rightarrow> False
            | Some u \<Rightarrow>
                (let allowed = os_Getenv (pf_os pf) w ''ALLOWED_ORIGINS'' in
                 (allowed \<noteq> [] \<and> list_ex (\<lambda>a. EqualFold (pf_ut pf) (TrimSpace a) origin) (Split (CHR '','') allowed))
                 \<or> EqualFold (pf_ut pf) (url_Host u) (rq_Host rq))))"

text \<open>
  Until the session runs: refused, not upgraded, no shell, or attached; \<open>handshake\<close> says whether
  the WebSocket library accepts the rest of the request. \<open>resize\<close> decodes a resize
  message; \<^verbatim>\<open>exec_message\<close> is the dispatch of one WebSocket message.
\<close>

datatype exec_start = Exec_http "body response" | Exec_not_upgraded | Exec_failed string | Exec_attached string

definition handleExec ::
    "'w platform \<Rightarrow> request \<Rightarrow> bool \<Rightarrow> string \<Rightarrow> ('w, 'z) daemon_scheme \<Rightarrow> exec_start \<times> ('w, 'z) daemon_scheme" where
  "handleExec pf rq handshake container s =
     (if holder_Get (d_holder s) = None then (Exec_http (text_error ''docker unavailable'' 503), s)
      else if container = [] then (Exec_http (text_error ''missing container'' 400), s)
      else if \<not> (handshake \<and> checkOrigin pf rq (world s)) then (Exec_not_upgraded, s)
      else
        (let (r, s1) = ExecInteractive (pf_api pf) container s in
         (case r of
            Inl e \<Rightarrow> Exec_failed (''failed to start shell: '' @ e)
          | Inr eid \<Rightarrow> Exec_attached eid, s1)))"

datatype exec_action = Resize nat nat | Input string | Ignored

definition exec_message :: "(string \<Rightarrow> (string \<times> nat \<times> nat) option) \<Rightarrow> bool \<Rightarrow> string \<Rightarrow> exec_action" where
  "exec_message resize text_or_binary data =
     (if \<not> text_or_binary then Ignored
      else if data \<noteq> [] \<and> hd data = CHR ''{'' then
        (case resize data of
           Some (type, rows, cols) \<Rightarrow> if type = ''resize'' then Resize rows cols else Input data
         | None \<Rightarrow> Input data)
      else Input data)"

section \<open>Frames of the server's fields\<close>

lemma service_more:
  assumes "daemon.more t = daemon.more (s :: ('w, 'z) service_scheme)"
  shows "sv_trigger t = sv_trigger s" "sv_limiter t = sv_limiter s" "sv_applying t = sv_applying s"
    "sv_jobs t = sv_jobs s" "sv_refreshes t = sv_refreshes s" "sv_applyStack_set t = sv_applyStack_set s"
    "sv_token t = sv_token s"
  using assms by (cases s; cases t; simp)+

lemma syncRepoFromDB_daemon [frame_simps]: "daemon.more (syncRepoFromDB pf cf repo icfg i d) = daemon.more d"
  by (simp add: syncRepoFromDB_def recordError_def recordSuccess_def split_def Let_def frame_simps split: sum.splits)

lemma loadInfisicalFromDB_inner [frame_simps]: "inner (snd (loadInfisicalFromDB pf cf d)) = inner d"
  by (simp add: loadInfisicalFromDB_def split_def Let_def frame_simps split: sum.splits)

lemmas loadInfisicalFromDB_daemon [frame_simps] = inner_frames [OF loadInfisicalFromDB_inner]
lemmas time_Now_daemon [frame_simps] = inner_frames [OF machine_inner(2)]

lemma sync_each_more [frame_simps]: "daemon.more (snd (sync_each pf cf icfg i repos d)) = daemon.more d"
proof (induction repos arbitrary: d)
  case (Cons r repos)
  have "daemon.more (d\<lparr>d_sched := x\<rparr>) = daemon.more d" for d :: "('a, 'b) daemon_scheme" and x by simp
  then show ?case using Cons by (simp add: split_def Let_def frame_simps)
qed simp

lemma doSyncRound_more [frame_simps]: "daemon.more (doSyncRound pf cf repos icfg i d) = daemon.more d"
  by (simp add: doSyncRound_def split_def Let_def frame_simps)

lemma fold_triggered_more [frame_simps]:
  "daemon.more (fold (sync_triggered pf cf q icfg i) repos d) = daemon.more d"
  by (induction repos arbitrary: d) (simp_all add: sync_triggered_def frame_simps)

lemma manual_round_more [frame_simps]: "daemon.more (manual_round pf cf q repos i d) = daemon.more d"
  by (simp add: manual_round_def split_def Let_def frame_simps)

lemma onApply_more [frame_simps]: "daemon.more (onApply pf cf r n d) = daemon.more d"
  by (simp add: onApply_def split_def Let_def frame_simps split: option.splits sum.splits)

section \<open>Lemmas on the handlers\<close>

lemma group_stacks_fold:
  "mget0 [] (fold (\<lambda>st byRepo. mput (ss_RepoName st) (mget0 [] byRepo (ss_RepoName st) @ [st]) byRepo) xs m) n =
     mget0 [] m n @ filter (\<lambda>st. ss_RepoName st = n) xs"
  by (induction xs arbitrary: m) (auto simp: mget0_def)

lemma group_stacks_filter: "mget0 [] (group_stacks xs) n = filter (\<lambda>st. ss_RepoName st = n) xs"
  using group_stacks_fold [of xs "[]" n] unfolding group_stacks_def by (simp add: mget0_def)

text \<open>One step of the part of the server that admits manual syncs, with the list of admissions.\<close>

definition admitted :: "body response \<Rightarrow> bool" where
  "admitted r \<longleftrightarrow> resp_Code r \<noteq> 429 \<and> resp_Code r \<noteq> 400"

type_synonym 'w admission = "'w service \<times> (string \<times> gotime) list"

inductive admission_step :: "'w platform \<Rightarrow> 'w admission \<Rightarrow> 'w admission \<Rightarrow> bool" for pf :: "'w platform" where
  sync_admitted: "handleSync pf repo s = (r, t) \<Longrightarrow> admitted r \<Longrightarrow>
     mget (rl_lastTime (sv_limiter t)) repo = Some a \<Longrightarrow> admission_step pf (s, adm) (t, adm @ [(repo, a)])"
| sync_refused: "handleSync pf repo s = (r, t) \<Longrightarrow> \<not> admitted r \<Longrightarrow> admission_step pf (s, adm) (t, adm)"
| elsewhere: "sv_limiter t = sv_limiter s \<Longrightarrow> admission_step pf (s, adm) (t, adm)"

inductive_cases admission_stepE: "admission_step pf (s, adm) y"

definition times_of :: "string \<Rightarrow> (string \<times> gotime) list \<Rightarrow> gotime list" where
  "times_of k adm = map snd (filter (\<lambda>e. fst e = k) adm)"

definition spaced :: "int \<Rightarrow> int list \<Rightarrow> bool" where
  "spaced w ts \<longleftrightarrow> sorted_wrt (\<lambda>a b. b - a \<ge> w) ts"

definition admission_ok :: "'w admission \<Rightarrow> bool" where
  "admission_ok = (\<lambda>(s, adm). 0 \<le> sint (rl_window (sv_limiter s)) \<and>
     (\<forall>k. spaced (sint (rl_window (sv_limiter s))) (times_of k adm)
        \<and> mget (rl_lastTime (sv_limiter s)) k = (if times_of k adm = [] then None else Some (last (times_of k adm)))))"

definition clock_forward :: "'w os \<Rightarrow> bool" where
  "clock_forward os \<longleftrightarrow> (\<forall>w. fst (os_Now os w) \<le> fst (os_Now os (snd (os_Now os w))))"

lemma clamped_since:
  assumes "sint (word_of_int (max (- (2 ^ 63)) (min (2 ^ 63 - 1) d)) :: 64 word) \<ge> w" "0 \<le> w"
  shows "d \<ge> w"
proof -
  let ?m = "max (- (2 ^ 63)) (min (2 ^ 63 - 1) d) :: int"
  have "sint (word_of_int ?m :: 64 word) = ?m" by (simp add: signed_of_int signed_take_bit_int_eq_self)
  then show ?thesis using assms by simp
qed

lemma since_service [simp]: "sv_limiter (snd (since pf t s)) = sv_limiter s" "sv_trigger (snd (since pf t s)) = sv_trigger s"
  by (simp_all add: since_def time_Now_def split_def Let_def)

lemma rl_Allow_refused: "fst (rl_Allow pf k s) = False \<Longrightarrow> sv_limiter (snd (rl_Allow pf k s)) = sv_limiter s"
  by (auto simp: rl_Allow_def limiter_store_def split_def Let_def split: option.splits if_splits)

lemma rl_Allow_allowed:
  assumes "fst (rl_Allow pf k s)" "clock_forward (pf_os pf)" "0 \<le> sint (rl_window (sv_limiter s))"
  shows "\<exists>a. sv_limiter (snd (rl_Allow pf k s)) = (sv_limiter s)\<lparr>rl_lastTime := mput k a (rl_lastTime (sv_limiter s))\<rparr>
    \<and> (\<forall>prev. mget (rl_lastTime (sv_limiter s)) k = Some prev \<longrightarrow> a - prev \<ge> sint (rl_window (sv_limiter s)))"
proof (cases "mget (rl_lastTime (sv_limiter s)) k")
  case None
  then show ?thesis by (auto simp: rl_Allow_def limiter_store_def time_Now_def split_def Let_def)
next
  case (Some prev)
  let ?now = "fst (os_Now (pf_os pf) (world s))" and ?w = "snd (os_Now (pf_os pf) (world s))"
  have s1: "snd (since pf prev s) = s\<lparr>world := ?w\<rparr>"
    and d: "fst (since pf prev s) = word_of_int (max (- (2 ^ 63)) (min (2 ^ 63 - 1) (?now - prev)))"
    by (simp_all add: since_def time_Now_def split_def Let_def)
  have "sint (fst (since pf prev s)) \<ge> sint (rl_window (sv_limiter s))"
    using assms(1) Some by (auto simp: rl_Allow_def split_def Let_def s1 split: if_splits)
  then have "?now - prev \<ge> sint (rl_window (sv_limiter s))" unfolding d using assms(3) by (rule clamped_since)
  moreover have "?now \<le> fst (os_Now (pf_os pf) ?w)" using assms(2) by (simp add: clock_forward_def)
  ultimately show ?thesis
    using assms(1) Some by (auto simp: rl_Allow_def limiter_store_def time_Now_def split_def Let_def s1 split: if_splits)
qed

lemma handleSync_limiter:
  "sv_limiter (snd (handleSync pf repo s)) = (if repo = [] then sv_limiter s else sv_limiter (snd (rl_Allow pf repo s)))"
  "admitted (fst (handleSync pf repo s)) \<longleftrightarrow> repo \<noteq> [] \<and> fst (rl_Allow pf repo s)"
  by (simp_all add: handleSync_def split_def Let_def admitted_def json_fields_def json_response_def text_error_def http_Error_def)

lemma spaced_snoc:
  assumes "spaced w ts" "0 \<le> w" "ts \<noteq> [] \<Longrightarrow> a - last ts \<ge> w"
  shows "spaced w (ts @ [a])"
proof (cases ts rule: rev_cases)
  case Nil
  then show ?thesis by (simp add: spaced_def)
next
  case (snoc us u)
  then show ?thesis using assms by (fastforce simp: spaced_def sorted_wrt_append)
qed

lemma admission_step_ok:
  assumes clock: "clock_forward (pf_os pf)" and ok: "admission_ok x" and step: "admission_step pf x y"
  shows "admission_ok y"
proof -
  obtain s adm where x: "x = (s, adm)" by fastforce
  let ?w = "sint (rl_window (sv_limiter s))" and ?m = "rl_lastTime (sv_limiter s)"
  have w: "0 \<le> ?w" and inv: "spaced ?w (times_of k adm)"
      "mget ?m k = (if times_of k adm = [] then None else Some (last (times_of k adm)))" for k
    using ok by (simp_all add: x admission_ok_def)
  show ?thesis using step unfolding x
  proof (elim admission_stepE)
    fix repo r t a
    assume h: "handleSync pf repo s = (r, t)" "admitted r" "mget (rl_lastTime (sv_limiter t)) repo = Some a"
      and y: "y = (t, adm @ [(repo, a)])"
    have al: "repo \<noteq> []" "fst (rl_Allow pf repo s)" and t: "sv_limiter t = sv_limiter (snd (rl_Allow pf repo s))"
      using handleSync_limiter [of pf repo s] h by auto
    obtain b where b: "sv_limiter t = (sv_limiter s)\<lparr>rl_lastTime := mput repo b ?m\<rparr>"
        "\<And>prev. mget ?m repo = Some prev \<Longrightarrow> b - prev \<ge> ?w"
      using rl_Allow_allowed [OF al(2) clock w] t by auto
    have "b = a" using b(1) h(3) by simp
    moreover have "spaced ?w (times_of repo adm @ [b])"
      using inv [of repo] b(2) by (intro spaced_snoc w) auto
    ultimately show ?thesis
      using inv w b(1) unfolding y by (auto simp: admission_ok_def times_of_def spaced_def)
  next
    fix repo r t
    assume h: "handleSync pf repo s = (r, t)" "\<not> admitted r" and y: "y = (t, adm)"
    have "sv_limiter t = sv_limiter s"
      using handleSync_limiter [of pf repo s] rl_Allow_refused [of pf repo s] h by (auto split: if_splits)
    then show ?thesis using ok unfolding y x by (simp add: admission_ok_def)
  next
    fix t assume "sv_limiter t = sv_limiter s" "y = (t, adm)"
    then show ?thesis using ok unfolding x by (simp add: admission_ok_def)
  qed
qed

lemma admission_init:
  "rl_lastTime (sv_limiter s) = [] \<Longrightarrow> 0 \<le> sint (rl_window (sv_limiter s)) \<Longrightarrow> admission_ok (s, [])"
  by (simp add: admission_ok_def times_of_def spaced_def)

interpretation admissions: transition_system
    "\<lambda>(s, adm). adm = [] \<and> rl_lastTime (sv_limiter s) = [] \<and> 0 \<le> sint (rl_window (sv_limiter s)) \<and> clock_forward (pf_os pf)"
    "admission_step pf" "\<lambda>x. admission_ok x \<and> clock_forward (pf_os pf)" for pf
  by unfold_locales (auto simp: admission_init dest: admission_step_ok)

section \<open>Apply jobs in flight\<close>

text \<open>The table of running applies holds the keys of the jobs in flight, which are pairwise different.\<close>

definition job_key :: "string \<times> string \<Rightarrow> string" where
  "job_key j = stack_key (fst j) (snd j)"

definition jobs_ok :: "'w service \<Rightarrow> bool" where
  "jobs_ok s \<longleftrightarrow> distinct (map job_key (sv_jobs s)) \<and> sv_applying s = job_key ` set (sv_jobs s)"

lemma handleApplyStack_jobs:
  "jobs_ok s \<Longrightarrow> jobs_ok (snd (handleApplyStack repo stack s))"
  by (auto simp: handleApplyStack_def jobs_ok_def job_key_def)

lemma remove1_keys:
  "distinct (map f xs) \<Longrightarrow> x \<in> set xs \<Longrightarrow> f ` set (remove1 x xs) = f ` set xs - {f x}"
proof -
  assume d: "distinct (map f xs)" and x: "x \<in> set xs"
  then have "set (remove1 x xs) = set xs - {x}" by (auto simp: distinct_map set_remove1_eq)
  moreover have "inj_on f (set xs)" using d by (simp add: distinct_map)
  ultimately show ?thesis using x by (auto simp: inj_on_def)
qed

lemma job_done_jobs: "jobs_ok s \<Longrightarrow> job \<in> set (sv_jobs s) \<Longrightarrow> jobs_ok (job_done job s)"
  using remove1_keys [of job_key "sv_jobs s" job]
  by (auto simp: job_done_def job_key_def [symmetric] jobs_ok_def distinct_map intro: inj_on_subset)

section \<open>The client's side of an event stream\<close>

text \<open>
  How \<^verbatim>\<open>EventSource\<close> reads a stream of lines: a \<^verbatim>\<open>data\<close> field adds a line to the pending event, the
  empty line dispatches it, other fields are ignored.
\<close>

fun event_source :: "string list \<Rightarrow> string list \<Rightarrow> string list" where
  "event_source pending [] = []"
| "event_source pending (l # ls) =
     (if l = [] then (if pending = [] then [] else [Join pending [newline]]) @ event_source [] ls
      else if HasPrefix l ''data: '' then event_source (pending @ [drop 6 l]) ls
      else if HasPrefix l ''data:'' then event_source (pending @ [drop 5 l]) ls
      else event_source pending ls)"

lemma Split_frame: "newline \<notin> set l \<Longrightarrow> Split newline (sse_frame l @ s) = (''data: '' @ l) # [] # Split newline s"
  using Split_append_sep [of newline "''data: '' @ l" "newline # s"] by (simp add: sse_frame_def)

lemma event_source_frames:
  "list_all (\<lambda>l. newline \<notin> set l) ls \<Longrightarrow> event_source [] (Split newline (concat (map sse_frame ls))) = ls"
  by (induction ls) (simp_all add: Split_frame HasPrefix_def)

section \<open>Properties\<close>

definition demo_service :: "(string \<times> string) list service" where
  "demo_service = \<lparr>world = [], ran = [], d_db = fresh_database [], d_sched = new_scheduler, d_store = store_New,
     d_bus = NewActivityBus, d_metrics = no_metrics, d_holder = Some (Some 1), sv_trigger = [],
     sv_limiter = newRateLimiter (5 * Second), sv_applying = {}, sv_jobs = [], sv_refreshes = [],
     sv_applyStack_set = True, sv_token = ''old'', sv_startTime = 0, sv_version = ''dev'', sv_cloneDir = ''/repos'',
     sv_dbPath = ''/data/stackd.db''\<rparr>"


text \<open>
  C19. Manual syncs are rate limited: in any run of the server, whatever else happens in between, any
  two admitted sync requests for one repository are at least the configured window apart.
\<close>

theorem manual_syncs_spaced:
  assumes "reach (\<lambda>(s, adm). adm = [] \<and> rl_lastTime (sv_limiter s) = [] \<and> 0 \<le> sint (rl_window (sv_limiter s))
      \<and> clock_forward (pf_os pf)) (admission_step pf) (s, adm)"
  shows "sorted_wrt (\<lambda>t u. u - t \<ge> sint (rl_window (sv_limiter s))) (map snd (filter (\<lambda>e. fst e = repo) adm))"
  using admissions.reach_invariant [OF assms] by (simp add: admission_ok_def spaced_def times_of_def)

theorem manual_syncs_spaced_witness:
  "let s = snd (handleSync demo_pf ''plex'' demo_service) in
   sorted_wrt (\<lambda>t u. u - t \<ge> sint (rl_window (sv_limiter s))) (map snd (filter (\<lambda>e. fst e = ''plex'') [(''plex'', 1000)]))"
proof -
  let ?I = "\<lambda>(s :: (string \<times> string) list service, adm :: (string \<times> gotime) list). adm = [] \<and> rl_lastTime (sv_limiter s) = []
      \<and> 0 \<le> sint (rl_window (sv_limiter s)) \<and> clock_forward (pf_os demo_pf)"
  let ?s = "snd (handleSync demo_pf ''plex'' demo_service)"
  have "clock_forward (pf_os demo_pf)" by (simp add: clock_forward_def demo_pf_def demo_os_def)
  then have "reach ?I (admission_step demo_pf) (demo_service, [])"
    by (intro reach_init) (simp add: demo_service_def newRateLimiter_def Second_def)
  moreover have "admission_step demo_pf (demo_service, []) (?s, [] @ [(''plex'', 1000)])"
  proof (rule sync_admitted)
    show "handleSync demo_pf ''plex'' demo_service = (fst (handleSync demo_pf ''plex'' demo_service), ?s)" by simp
    show "admitted (fst (handleSync demo_pf ''plex'' demo_service))" by code_simp
    show "mget (rl_lastTime (sv_limiter ?s)) ''plex'' = Some 1000" by code_simp
  qed
  ultimately have "reach ?I (admission_step demo_pf) (?s, [(''plex'', 1000)])" by (auto intro: reach_step)
  from manual_syncs_spaced [OF this, of "''plex''"] show ?thesis by (simp add: Let_def)
qed




end
