(* ===== verification/Exec_Session.thy ===== *)
theory Exec_Session
  imports Server_Core
begin

text \<open>
  A terminal session after \<^verbatim>\<open>handleExec\<close> has attached to the shell (\<^verbatim>\<open>src/internal/server/server.go\<close>): the
  goroutine that copies the shell's output to the WebSocket, the one that closes the connection to
  the shell when the context ends, and the handler's own loop, which reads messages of the browser.
  The reads, and whether a write succeeds, are the choice of the step; a closed connection only
  reads an error and refuses writes.
\<close>

record session =
  sn_conn :: bool
  sn_ws :: bool
  sn_ctx_done :: bool
  sn_reader :: bool
  sn_loop :: bool
  sn_to_client :: "string list"
  sn_to_shell :: string
  sn_resizes :: "(nat \<times> nat) list"

definition session_start :: session where
  "session_start = \<lparr>sn_conn = True, sn_ws = True, sn_ctx_done = False, sn_reader = True, sn_loop = True,
     sn_to_client = [], sn_to_shell = [], sn_resizes = []\<rparr>"

text \<open>One turn of the output goroutine: a chunk, possibly empty, and an error, possibly none.\<close>

definition shell_output :: "string \<Rightarrow> bool \<Rightarrow> bool \<Rightarrow> session \<Rightarrow> session" where
  "shell_output buf err ws_ok s =
     (if buf \<noteq> [] \<and> \<not> ws_ok then s\<lparr>sn_reader := False\<rparr>
      else
        (let s1 = (if buf \<noteq> [] then s\<lparr>sn_to_client := sn_to_client s @ [buf]\<rparr> else s) in
         if err then s1\<lparr>sn_ctx_done := True, sn_reader := False\<rparr> else s1))"

text \<open>The handler returns: its deferred calls close the connection, cancel the context and close the WebSocket.\<close>

definition session_return :: "session \<Rightarrow> session" where
  "session_return s = s\<lparr>sn_conn := False, sn_ctx_done := True, sn_ws := False, sn_loop := False\<rparr>"

definition ws_message ::
    "(string \<Rightarrow> (string \<times> nat \<times> nat) option) \<Rightarrow> bool \<Rightarrow> string \<Rightarrow> bool \<Rightarrow> session \<Rightarrow> session" where
  "ws_message resize text_or_binary data write_ok s =
     (case exec_message resize text_or_binary data of
        Resize rows cols \<Rightarrow> s\<lparr>sn_resizes := sn_resizes s @ [(rows, cols)]\<rparr>
      | Input d \<Rightarrow> if write_ok then s\<lparr>sn_to_shell := sn_to_shell s @ d\<rparr> else session_return s
      | Ignored \<Rightarrow> s)"

text \<open>What happens on the server's side: output, the end of the context, and the goroutine that waits for it.\<close>

inductive server_step :: "session \<Rightarrow> session \<Rightarrow> bool" where
  v_output: "sn_reader s \<Longrightarrow> sn_conn s \<or> buf = [] \<and> err \<Longrightarrow> sn_ws s \<or> \<not> ws_ok \<Longrightarrow>
     server_step s (shell_output buf err ws_ok s)"
| v_expire: "server_step s (s\<lparr>sn_ctx_done := True\<rparr>)"
| v_watch: "sn_ctx_done s \<Longrightarrow> server_step s (s\<lparr>sn_conn := False\<rparr>)"

text \<open>What the browser does: a message, or an error of \<^verbatim>\<open>ReadMessage\<close>.\<close>

inductive client_step :: "(string \<Rightarrow> (string \<times> nat \<times> nat) option) \<Rightarrow> session \<Rightarrow> session \<Rightarrow> bool"
  for resize :: "string \<Rightarrow> (string \<times> nat \<times> nat) option" where
  c_message: "sn_loop s \<Longrightarrow> sn_conn s \<or> \<not> write_ok \<Longrightarrow> client_step resize s (ws_message resize t data write_ok s)"
| c_gone: "sn_loop s \<Longrightarrow> client_step resize s (session_return s)"

definition session_step :: "(string \<Rightarrow> (string \<times> nat \<times> nat) option) \<Rightarrow> session \<Rightarrow> session \<Rightarrow> bool" where
  "session_step resize s t \<longleftrightarrow> server_step s t \<or> client_step resize s t"

text \<open>
  The WebSocket is open exactly while the handler runs; when the handler has returned nothing is
  left open, and the output goroutine alone may still have to notice.
\<close>

definition session_ok :: "session \<Rightarrow> bool" where
  "session_ok s \<longleftrightarrow> sn_ws s = sn_loop s \<and> (\<not> sn_loop s \<longrightarrow> \<not> sn_conn s \<and> sn_ctx_done s)"

lemma server_step_kept: "server_step s t \<Longrightarrow> sn_loop t = sn_loop s \<and> sn_ws t = sn_ws s"
  by (induction rule: server_step.induct) (auto simp: shell_output_def Let_def)

lemma server_step_ok: "server_step s t \<Longrightarrow> session_ok s \<Longrightarrow> session_ok t"
  by (induction rule: server_step.induct) (auto simp: session_ok_def shell_output_def Let_def)

lemma client_step_ok: "client_step resize s t \<Longrightarrow> session_ok s \<Longrightarrow> session_ok t"
  by (induction rule: client_step.induct) (auto simp: session_ok_def ws_message_def session_return_def split: exec_action.split)

interpretation sessions: transition_system "\<lambda>s. s = session_start" "session_step resize" session_ok for resize
  by unfold_locales (auto simp: session_ok_def session_start_def session_step_def
      dest: server_step_ok [unfolded session_ok_def] client_step_ok [unfolded session_ok_def])

section \<open>Properties\<close>

text \<open>
  A session that is over is torn down: in every reachable state in which the handler has returned,
  the connection to the shell and the WebSocket are closed and the context is cancelled, and every
  later turn of the output goroutine ends it without writing to the closed WebSocket.
\<close>

theorem exec_teardown:
  assumes "reach (\<lambda>s. s = session_start) (session_step resize) s" and "\<not> sn_loop s"
  shows "\<not> sn_conn s \<and> \<not> sn_ws s \<and> sn_ctx_done s
    \<and> (server_step s t \<longrightarrow> sn_to_client t = sn_to_client s \<and> sn_to_shell t = sn_to_shell s)"
proof -
  have "session_ok s" by (rule sessions.reach_invariant [OF assms(1)])
  then show ?thesis
    using assms(2) by (auto simp: session_ok_def shell_output_def Let_def elim!: server_step.cases)
qed

theorem exec_teardown_witness:
  "\<not> sn_conn (session_return session_start) \<and> sn_ctx_done (session_return session_start)"
proof -
  have "reach (\<lambda>s. s = session_start) (session_step (\<lambda>_. None)) session_start" by (intro reach_init) simp
  then have "reach (\<lambda>s. s = session_start) (session_step (\<lambda>_. None)) (session_return session_start)"
    by (rule reach_step) (simp add: session_step_def session_start_def c_gone)
  from exec_teardown [OF this] show ?thesis by (simp add: session_return_def)
qed



end
