(* ===== verification/Settings.thy ===== *)
theory Settings
  imports Server_Core
begin

text \<open>
  The settings API (\<^verbatim>\<open>src/internal/server/settings_handlers.go\<close>): repositories, SSH keys, general
  settings. A request body arrives decoded, \<open>None\<close> when the JSON decoder fails; a missing field
  has its zero value, and a pointer field is an option. The random sources deliver what they
  deliver: \<open>nonce\<close> for an encryption, \<open>uuid\<close> for a new identifier. A panic in a handler aborts
  the response.
\<close>

section \<open>Bodies\<close>

record repoRequest =
  rr_Name :: string
  rr_URL :: string
  rr_Branch :: string
  rr_Remote :: string
  rr_AuthType :: string
  rr_SSHKeyID :: string
  rr_PAT :: string
  rr_StacksDir :: string
  rr_SyncInterval :: goint
  rr_Enabled :: "bool option"

record repoResponse =
  ro_ID :: string
  ro_Name :: string
  ro_URL :: string
  ro_Branch :: string
  ro_Remote :: string
  ro_AuthType :: string
  ro_SSHKeyID :: string
  ro_HasPAT :: bool
  ro_StacksDir :: string
  ro_SyncInterval :: goint
  ro_Enabled :: bool
  ro_CreatedAt :: gotime
  ro_UpdatedAt :: gotime

record sshKeyRequest =
  kr_Name :: string
  kr_PrivateKey :: string

record sshKeyResponse =
  ko_ID :: string
  ko_Name :: string
  ko_PublicKey :: string
  ko_CreatedAt :: gotime

record generalSettingsResponse =
  go_InfisicalTokenSet :: bool
  go_InfisicalProjectID :: string
  go_InfisicalEnv :: string
  go_InfisicalURL :: string
  go_GitUserName :: string
  go_GitUserEmail :: string
  go_DashboardTokenSet :: bool
  go_DefaultSyncInterval :: goint

record generalSettingsRequest =
  gr_InfisicalToken :: "string option"
  gr_InfisicalProjectID :: "string option"
  gr_InfisicalEnv :: "string option"
  gr_InfisicalURL :: "string option"
  gr_GitUserName :: "string option"
  gr_GitUserEmail :: "string option"
  gr_DashboardToken :: "string option"
  gr_DefaultSyncInterval :: "goint option"

datatype settings_body =
    ErrorBody string
  | OkBody
  | RepoBody repoResponse
  | ReposBody "repoResponse list"
  | KeyBody sshKeyResponse
  | KeysBody "sshKeyResponse list"
  | GeneralBody generalSettingsResponse
  | AbortedBody

definition jsonOK :: "settings_body \<Rightarrow> settings_body response" where
  "jsonOK b = json_response 200 b"

definition jsonError :: "string \<Rightarrow> nat \<Rightarrow> settings_body response" where
  "jsonError msg code = json_response code (ErrorBody msg)"

definition aborted :: "settings_body response" where
  "aborted = \<lparr>resp_Code = 0, resp_Headers = [], resp_Body = AbortedBody\<rparr>"

section \<open>Repositories\<close>

definition repoToResponse :: "RepoDB \<Rightarrow> repoResponse" where
  "repoToResponse r =
     \<lparr>ro_ID = rdb_ID r, ro_Name = rdb_Name r, ro_URL = rdb_URL r, ro_Branch = rdb_Branch r,
      ro_Remote = rdb_Remote r, ro_AuthType = rdb_AuthType r, ro_SSHKeyID = rdb_SSHKeyID r,
      ro_HasPAT = (rdb_PATEnc r \<noteq> []), ro_StacksDir = rdb_StacksDir r, ro_SyncInterval = rdb_SyncInterval r,
      ro_Enabled = rdb_Enabled r, ro_CreatedAt = rdb_CreatedAt r, ro_UpdatedAt = rdb_UpdatedAt r\<rparr>"

definition handleListRepos :: "'w platform \<Rightarrow> ('w, 'z) daemon_scheme \<Rightarrow> settings_body response \<times> ('w, 'z) daemon_scheme" where
  "handleListRepos pf s =
     (let (res, s1) = on_db (ListRepos (pf_dt pf)) s in
      (case res of
         Inl _ \<Rightarrow> jsonError ''failed to list repos'' 500
       | Inr repos \<Rightarrow> jsonOK (ReposBody (map repoToResponse repos)), s1))"

text \<open>The checks of a create request, in order: the first that fails decides the answer.\<close>

definition check_create :: "'w platform \<Rightarrow> repoRequest \<Rightarrow> string + repoRequest" where
  "check_create pf req =
     (if rr_Name req = [] \<or> rr_URL req = [] then Inl ''name and url are required''
      else case ValidateRepoName (rr_Name req) of
        Inl e \<Rightarrow> Inl e
      | Inr _ \<Rightarrow>
      (case ValidateRepoURL (pf_ut pf) (pf_ip6 pf) (rr_URL req) of
        Inl e \<Rightarrow> Inl e
      | Inr _ \<Rightarrow>
      (let req1 = (if rr_Branch req = [] then req\<lparr>rr_Branch := ''main''\<rparr> else req);
           req2 = (if rr_Remote req1 = [] then req1\<lparr>rr_Remote := ''origin''\<rparr> else req1) in
       case ValidateRef (rr_Remote req2) of
         Inl e \<Rightarrow> Inl e
       | Inr _ \<Rightarrow>
       (case ValidateRef (rr_Branch req2) of
         Inl e \<Rightarrow> Inl e
       | Inr _ \<Rightarrow>
           if sint (rr_SyncInterval req2) < 0 then Inl ''syncInterval must not be negative''
           else Inr (if rr_StacksDir req2 = [] then req2\<lparr>rr_StacksDir := ''.''\<rparr> else req2)))))"

definition encrypt_PAT :: "'w platform \<Rightarrow> config \<Rightarrow> string option \<Rightarrow> string \<Rightarrow> string + string" where
  "encrypt_PAT pf cf nonce pat = (if pat = [] then Inr [] else Encrypt (pf_aead pf) nonce (cf_cryptoKey cf) pat)"

definition repo_of_request :: "repoRequest \<Rightarrow> string \<Rightarrow> RepoDB" where
  "repo_of_request req patEnc =
     \<lparr>rdb_ID = [], rdb_Name = rr_Name req, rdb_URL = rr_URL req, rdb_Branch = rr_Branch req,
      rdb_Remote = rr_Remote req, rdb_AuthType = rr_AuthType req, rdb_SSHKeyID = rr_SSHKeyID req,
      rdb_PATEnc = patEnc, rdb_StacksDir = rr_StacksDir req, rdb_SyncInterval = rr_SyncInterval req,
      rdb_Enabled = (case rr_Enabled req of None \<Rightarrow> True | Some e \<Rightarrow> e),
      rdb_CreatedAt = zero_time, rdb_UpdatedAt = zero_time\<rparr>"

definition handleCreateRepo ::
    "'w platform \<Rightarrow> config \<Rightarrow> string option \<Rightarrow> 8 word list option \<Rightarrow> repoRequest option \<Rightarrow> ('w, 'z) daemon_scheme
       \<Rightarrow> settings_body response \<times> ('w, 'z) daemon_scheme" where
  "handleCreateRepo pf cf nonce uuid reqOpt s =
     (case reqOpt of
        None \<Rightarrow> (jsonError ''invalid request body'' 400, s)
      | Some req0 \<Rightarrow>
      (case check_create pf req0 of
        Inl e \<Rightarrow> (jsonError e 400, s)
      | Inr req \<Rightarrow>
      (case encrypt_PAT pf cf nonce (rr_PAT req) of
        Inl _ \<Rightarrow> (jsonError ''failed to encrypt PAT'' 500, s)
      | Inr patEnc \<Rightarrow>
      (let (now, s1) = time_Now (pf_os pf) s;
           (created, s2) = on_db (CreateRepo (pf_dt pf) uuid now (repo_of_request req patEnc)) s1 in
       case created of
         Inl e \<Rightarrow> (if errors_Is e Panic then aborted else jsonError ''failed to create repo'' 500, s2)
       | Inr _ \<Rightarrow>
           (let (listed, s3) = on_db (ListRepos (pf_dt pf)) s2 in
            (case listed of
               Inl _ \<Rightarrow> json_response 201 OkBody
             | Inr repos \<Rightarrow>
                 (case find (\<lambda>rr. rdb_Name rr = rr_Name req) repos of
                    Some rr \<Rightarrow> json_response 201 (RepoBody (repoToResponse rr))
                  | None \<Rightarrow> json_response 201 OkBody), s3))))))"

definition handleGetRepo :: "'w platform \<Rightarrow> string \<Rightarrow> ('w, 'z) daemon_scheme \<Rightarrow> settings_body response \<times> ('w, 'z) daemon_scheme" where
  "handleGetRepo pf i s =
     (let (res, s1) = on_db (db_GetRepo (pf_dt pf) i) s in
      (case res of
         Inl e \<Rightarrow> if errors_Is e ErrNoRows then jsonError ''not found'' 404 else jsonError ''failed to get repo'' 500
       | Inr repo \<Rightarrow> jsonOK (RepoBody (repoToResponse repo)), s1))"

text \<open>A field of an update: checked and taken over when it is given, kept otherwise.\<close>

definition upd :: "string \<Rightarrow> (string \<Rightarrow> string + unit) \<Rightarrow> (string \<Rightarrow> RepoDB \<Rightarrow> RepoDB) \<Rightarrow> string + RepoDB \<Rightarrow> string + RepoDB" where
  "upd v check put acc =
     (case acc of
        Inl e \<Rightarrow> Inl e
      | Inr r \<Rightarrow> if v = [] then Inr r else (case check v of Inl e \<Rightarrow> Inl e | Inr _ \<Rightarrow> Inr (put v r)))"

definition merge_update :: "'w platform \<Rightarrow> repoRequest \<Rightarrow> RepoDB \<Rightarrow> string + RepoDB" where
  "merge_update pf req existing =
     (case upd (rr_Remote req) ValidateRef (\<lambda>v r. r\<lparr>rdb_Remote := v\<rparr>)
           (upd (rr_Branch req) ValidateRef (\<lambda>v r. r\<lparr>rdb_Branch := v\<rparr>)
           (upd (rr_URL req) (ValidateRepoURL (pf_ut pf) (pf_ip6 pf)) (\<lambda>v r. r\<lparr>rdb_URL := v\<rparr>)
           (upd (rr_Name req) ValidateRepoName (\<lambda>v r. r\<lparr>rdb_Name := v\<rparr>) (Inr existing)))) of
        Inl e \<Rightarrow> Inl e
      | Inr r1 \<Rightarrow>
          (let r2 = (if rr_AuthType req \<noteq> [] then r1\<lparr>rdb_AuthType := rr_AuthType req\<rparr> else r1);
               r3 = (if rr_SSHKeyID req \<noteq> [] \<or> rr_AuthType req = ''ssh''
                     then r2\<lparr>rdb_SSHKeyID := rr_SSHKeyID req\<rparr> else r2);
               r4 = (if rr_StacksDir req \<noteq> [] then r3\<lparr>rdb_StacksDir := rr_StacksDir req\<rparr> else r3);
               r5 = (if sint (rr_SyncInterval req) > 0 then r4\<lparr>rdb_SyncInterval := rr_SyncInterval req\<rparr> else r4) in
           Inr (case rr_Enabled req of None \<Rightarrow> r5 | Some e \<Rightarrow> r5\<lparr>rdb_Enabled := e\<rparr>)))"

definition handleUpdateRepo ::
    "'w platform \<Rightarrow> config \<Rightarrow> string option \<Rightarrow> string \<Rightarrow> repoRequest option \<Rightarrow> ('w, 'z) daemon_scheme
       \<Rightarrow> settings_body response \<times> ('w, 'z) daemon_scheme" where
  "handleUpdateRepo pf cf nonce i reqOpt s =
     (let (found, s1) = on_db (db_GetRepo (pf_dt pf) i) s in
      case found of
        Inl _ \<Rightarrow> (jsonError ''not found'' 404, s1)
      | Inr existing \<Rightarrow>
      (case reqOpt of
        None \<Rightarrow> (jsonError ''invalid request body'' 400, s1)
      | Some req \<Rightarrow>
      (case merge_update pf req existing of
        Inl e \<Rightarrow> (jsonError e 400, s1)
      | Inr merged \<Rightarrow>
      (case (if rr_PAT req = [] then Inr (rdb_PATEnc merged)
             else Encrypt (pf_aead pf) nonce (cf_cryptoKey cf) (rr_PAT req)) of
        Inl _ \<Rightarrow> (jsonError ''failed to encrypt PAT'' 500, s1)
      | Inr patEnc \<Rightarrow>
      (let (now, s2) = time_Now (pf_os pf) s1;
           (done, s3) = on_db (db_UpdateRepo (pf_dt pf) now (merged\<lparr>rdb_PATEnc := patEnc, rdb_ID := i\<rparr>)) s2 in
       case done of
         Inl _ \<Rightarrow> (jsonError ''failed to update repo'' 500, s3)
       | Inr _ \<Rightarrow>
           (let (again, s4) = on_db (db_GetRepo (pf_dt pf) i) s3 in
            (case again of Inl _ \<Rightarrow> jsonOK OkBody | Inr updated \<Rightarrow> jsonOK (RepoBody (repoToResponse updated)), s4)))))))"

definition handleDeleteRepo :: "string \<Rightarrow> ('w, 'z) daemon_scheme \<Rightarrow> settings_body response \<times> ('w, 'z) daemon_scheme" where
  "handleDeleteRepo i s =
     (let (res, s1) = on_db (DeleteRepo i) s in
      (case res of Inl _ \<Rightarrow> jsonError ''failed to delete repo'' 500 | Inr _ \<Rightarrow> jsonOK OkBody, s1))"

section \<open>SSH keys\<close>

definition keyToResponse :: "SSHKeyDB \<Rightarrow> sshKeyResponse" where
  "keyToResponse k = \<lparr>ko_ID = key_ID k, ko_Name = key_Name k, ko_PublicKey = key_PublicKey k, ko_CreatedAt = key_CreatedAt k\<rparr>"

definition handleListSSHKeys :: "'w platform \<Rightarrow> ('w, 'z) daemon_scheme \<Rightarrow> settings_body response \<times> ('w, 'z) daemon_scheme" where
  "handleListSSHKeys pf s =
     (let (res, s1) = on_db (ListSSHKeys (pf_dt pf)) s in
      (case res of
         Inl _ \<Rightarrow> jsonError ''failed to list SSH keys'' 500
       | Inr keys \<Rightarrow> jsonOK (KeysBody (map keyToResponse keys)), s1))"

text \<open>\<open>parse_key\<close> is the SSH library: the public key of a private key, or its error.\<close>

definition handleCreateSSHKey ::
    "'w platform \<Rightarrow> config \<Rightarrow> (string \<Rightarrow> string + string) \<Rightarrow> string option \<Rightarrow> 8 word list option \<Rightarrow> sshKeyRequest option
       \<Rightarrow> ('w, 'z) daemon_scheme \<Rightarrow> settings_body response \<times> ('w, 'z) daemon_scheme" where
  "handleCreateSSHKey pf cf parse_key nonce uuid reqOpt s =
     (case reqOpt of
        None \<Rightarrow> (jsonError ''invalid request body'' 400, s)
      | Some req \<Rightarrow>
      if kr_Name req = [] \<or> kr_PrivateKey req = [] then (jsonError ''name and privateKey are required'' 400, s)
      else (case parse_key (kr_PrivateKey req) of
        Inl e \<Rightarrow> (jsonError (''invalid private key: '' @ e) 400, s)
      | Inr pubKey \<Rightarrow>
      (case Encrypt (pf_aead pf) nonce (cf_cryptoKey cf) (kr_PrivateKey req) of
        Inl _ \<Rightarrow> (jsonError ''failed to encrypt private key'' 500, s)
      | Inr privKeyEnc \<Rightarrow>
      (let k = \<lparr>key_ID = [], key_Name = kr_Name req, key_PrivateKeyEnc = privKeyEnc, key_PublicKey = pubKey,
                key_CreatedAt = zero_time\<rparr>;
           (now, s1) = time_Now (pf_os pf) s;
           (created, s2) = on_db (CreateSSHKey (pf_dt pf) uuid now k) s1 in
       case created of
         Inl e \<Rightarrow> (if errors_Is e Panic then aborted else jsonError ''failed to create SSH key'' 500, s2)
       | Inr _ \<Rightarrow>
           (let (listed, s3) = on_db (ListSSHKeys (pf_dt pf)) s2 in
            (case find (\<lambda>kk. key_Name kk = kr_Name req) (case listed of Inl _ \<Rightarrow> [] | Inr keys \<Rightarrow> keys) of
               Some kk \<Rightarrow> json_response 201 (KeyBody (keyToResponse kk))
             | None \<Rightarrow> json_response 201 OkBody, s3))))))"

definition handleDeleteSSHKey :: "string \<Rightarrow> ('w, 'z) daemon_scheme \<Rightarrow> settings_body response \<times> ('w, 'z) daemon_scheme" where
  "handleDeleteSSHKey i s =
     (let (res, s1) = on_db (DeleteSSHKey i) s in
      (case res of Inl _ \<Rightarrow> jsonError ''failed to delete SSH key'' 500 | Inr _ \<Rightarrow> jsonOK OkBody, s1))"

section \<open>General settings\<close>

definition setting_or_empty :: "db_error + string \<times> bool \<Rightarrow> string" where
  "setting_or_empty r = (case r of Inl _ \<Rightarrow> [] | Inr (v, _) \<Rightarrow> v)"

definition handleGetGeneralSettings :: "('w, 'z) daemon_scheme \<Rightarrow> settings_body response \<times> ('w, 'z) daemon_scheme" where
  "handleGetGeneralSettings s =
     (let (res, s1) = on_db GetAllSettings s in
      case res of
        Inl _ \<Rightarrow> (jsonError ''failed to get settings'' 500, s1)
      | Inr settings \<Rightarrow>
          (let (tok, s2) = on_db (GetSetting ''infisical_token'') s1;
               (dash, s3) = on_db (GetSetting ''dashboard_token'') s2;
               val = mget0 [] settings ''default_sync_interval'';
               interval = (if val = [] then 60
                           else case Atoi val of Some n \<Rightarrow> if sint n > 0 then n else 60 | None \<Rightarrow> 60) in
           (jsonOK (GeneralBody
              \<lparr>go_InfisicalTokenSet = (setting_or_empty tok \<noteq> []),
               go_InfisicalProjectID = mget0 [] settings ''infisical_project_id'',
               go_InfisicalEnv = mget0 [] settings ''infisical_env'', go_InfisicalURL = mget0 [] settings ''infisical_url'',
               go_GitUserName = mget0 [] settings ''git_user_name'', go_GitUserEmail = mget0 [] settings ''git_user_email'',
               go_DashboardTokenSet = (setting_or_empty dash \<noteq> []), go_DefaultSyncInterval = interval\<rparr>), s3)))"

definition given :: "string \<Rightarrow> string option \<Rightarrow> (string \<times> string) list" where
  "given k v = (case v of None \<Rightarrow> [] | Some x \<Rightarrow> [(k, x)])"

text \<open>The writes of an update, in order, with the encrypted Infisical token if one is given.\<close>

definition setting_updates :: "generalSettingsRequest \<Rightarrow> (string \<times> string) list \<Rightarrow> (string \<times> string) list" where
  "setting_updates req token =
     token @ given ''infisical_project_id'' (gr_InfisicalProjectID req) @ given ''infisical_env'' (gr_InfisicalEnv req)
     @ given ''infisical_url'' (gr_InfisicalURL req) @ given ''git_user_name'' (gr_GitUserName req)
     @ given ''git_user_email'' (gr_GitUserEmail req)
     @ (case gr_DashboardToken req of None \<Rightarrow> [] | Some t \<Rightarrow> if t \<noteq> [] then [(''dashboard_token'', t)] else [])
     @ (case gr_DefaultSyncInterval req of None \<Rightarrow> []
          | Some n \<Rightarrow> if sint n > 0 then [(''default_sync_interval'', Itoa n)] else [])"

fun write_settings :: "'w platform \<Rightarrow> (string \<times> string) list \<Rightarrow> ('w, 'z) daemon_scheme \<Rightarrow> string option \<times> ('w, 'z) daemon_scheme" where
  "write_settings pf [] s = (None, s)"
| "write_settings pf ((k, v) # kvs) s =
     (let (now, s1) = time_Now (pf_os pf) s; (r, s2) = on_db (SetSetting (pf_dt pf) now k v) s1 in
      case r of Inl _ \<Rightarrow> (Some k, s2) | Inr _ \<Rightarrow> write_settings pf kvs s2)"

definition handleUpdateGeneralSettings ::
    "'w platform \<Rightarrow> config \<Rightarrow> string option \<Rightarrow> generalSettingsRequest option \<Rightarrow> ('w, 'z) service_scheme
       \<Rightarrow> settings_body response \<times> ('w, 'z) service_scheme" where
  "handleUpdateGeneralSettings pf cf nonce reqOpt s =
     (case reqOpt of
        None \<Rightarrow> (jsonError ''invalid request body'' 400, s)
      | Some req \<Rightarrow>
      (case (case gr_InfisicalToken req of
               None \<Rightarrow> Inr []
             | Some t \<Rightarrow> if t = [] then Inr []
                 else (case Encrypt (pf_aead pf) nonce (cf_cryptoKey cf) t of
                         Inl e \<Rightarrow> Inl e | Inr enc \<Rightarrow> Inr [(''infisical_token'', enc)])) of
        Inl _ \<Rightarrow> (jsonError ''failed to encrypt token'' 500, s)
      | Inr token \<Rightarrow>
          (let (failed_key, s1) = write_settings pf (setting_updates req token) s in
           case failed_key of
             Some k \<Rightarrow> (jsonError (''failed to update setting: '' @ k) 500, s1)
           | None \<Rightarrow>
               (jsonOK OkBody,
                case gr_DashboardToken req of
                  None \<Rightarrow> s1 | Some t \<Rightarrow> if t \<noteq> [] then SetToken t s1 else s1))))"

section \<open>Secrets and the read handlers\<close>

text \<open>
  A database in which every secret is overwritten: only whether it is set is left of a token, and
  nothing of a private key.
\<close>

definition blot :: "string option \<Rightarrow> string option" where
  "blot v = map_option (\<lambda>s. if s = [] then [] else ''x'') v"

definition blot_repo :: "repo_row \<Rightarrow> repo_row" where
  "blot_repo r = r\<lparr>row_pat_enc := blot (row_pat_enc r)\<rparr>"

definition blot_key :: "ssh_row \<Rightarrow> ssh_row" where
  "blot_key k = k\<lparr>ssh_private_key_enc := []\<rparr>"

definition blot_setting :: "setting_row \<Rightarrow> setting_row" where
  "blot_setting r = (if set_sensitive r \<noteq> 0 then r\<lparr>set_value := blot (set_value r)\<rparr> else r)"

definition blotted :: "database \<Rightarrow> database" where
  "blotted d = d\<lparr>db_repos := map blot_repo (db_repos d), db_ssh_keys := map blot_key (db_ssh_keys d),
     db_settings := map blot_setting (db_settings d)\<rparr>"

lemma driver_call_blotted: "driver_call (blotted d) = (fst (driver_call d), blotted (snd (driver_call d)))"
  by (simp add: driver_call_def blotted_def split: list.splits)

lemma blotted_fields [simp]:
  "db_repos (blotted d) = map blot_repo (db_repos d)" "db_ssh_keys (blotted d) = map blot_key (db_ssh_keys d)"
  "db_settings (blotted d) = map blot_setting (db_settings d)"
  by (simp_all add: blotted_def)

lemma null_String_blot [simp]: "null_String (blot v) = [] \<longleftrightarrow> null_String v = []"
  by (simp add: blot_def null_String_def split: option.splits)

lemma response_blot: "repoToResponse (scanRepo dt (blot_repo r)) = repoToResponse (scanRepo dt r)"
  by (simp add: repoToResponse_def scanRepo_def blot_repo_def)

lemma key_response_blot: "keyToResponse (scanSSHKey dt (blot_key k)) = keyToResponse (scanSSHKey dt k)"
  by (simp add: keyToResponse_def scanSSHKey_def blot_key_def)

lemma blot_keys [simp]:
  "row_id (blot_repo r) = row_id r" "row_name (blot_repo r) = row_name r" "ssh_name (blot_key k) = ssh_name k"
  "set_key (blot_setting x) = set_key x" "masked_value (blot_setting x) = masked_value x"
  "set_sensitive (blot_setting x) = set_sensitive x"
  by (simp_all add: blot_repo_def blot_key_def blot_setting_def masked_value_def)

lemma null_String_blot_setting [simp]: "null_String (set_value (blot_setting x)) = [] \<longleftrightarrow> null_String (set_value x) = []"
  by (simp add: blot_setting_def)

lemma sort_key_map_same: "(\<And>x. f (g x) = f x) \<Longrightarrow> sort_key f (map g xs) = map g (sort_key f xs)"
proof (induction xs)
  case Nil
  show ?case by simp
next
  case (Cons x xs)
  have "insort_key f (g x) (map g ys) = map g (insort_key f x ys)" for ys
    by (induction ys) (simp_all add: Cons.prems)
  then show ?case using Cons by simp
qed

lemma find_setting_blot: "find_setting (map blot_setting rows) k = map_option blot_setting (find_setting rows k)"
  by (simp add: find_setting_def find_map_same)

lemma fold_masked_blot:
  "fold (\<lambda>r. mput (set_key r) (masked_value r)) (map blot_setting rows) m = fold (\<lambda>r. mput (set_key r) (masked_value r)) rows m"
  by (induction rows arbitrary: m) simp_all

lemma GetAllSettings_blot: "GetAllSettings (blotted d) = (fst (GetAllSettings d), blotted (snd (GetAllSettings d)))"
  by (simp add: GetAllSettings_def driver_call_blotted split_def Let_def fold_masked_blot)

lemma GetSetting_blot:
  "(setting_or_empty (fst (GetSetting k (blotted d))) = []) = (setting_or_empty (fst (GetSetting k d)) = [])"
  "snd (GetSetting k (blotted d)) = blotted (snd (GetSetting k d))"
  by (auto simp: GetSetting_def driver_call_blotted split_def Let_def setting_or_empty_def find_setting_blot
      split: option.splits)

lemma ListRepos_blot:
  "map_sum id (map repoToResponse) (fst (ListRepos dt (blotted d))) = map_sum id (map repoToResponse) (fst (ListRepos dt d))"
  by (simp add: ListRepos_def driver_call_blotted split_def Let_def by_name_def sort_key_map_same response_blot comp_def)

lemma GetRepo_blot:
  "map_sum id repoToResponse (fst (db_GetRepo dt i (blotted d))) = map_sum id repoToResponse (fst (db_GetRepo dt i d))"
  by (simp add: db_GetRepo_def select_repo_def driver_call_blotted split_def Let_def find_map_same response_blot
      split: option.splits)

lemma ListSSHKeys_blot:
  "map_sum id (map keyToResponse) (fst (ListSSHKeys dt (blotted d))) = map_sum id (map keyToResponse) (fst (ListSSHKeys dt d))"
  by (simp add: ListSSHKeys_def driver_call_blotted split_def Let_def by_name_def sort_key_map_same key_response_blot comp_def)

lemma case_sum_map: "(case r of Inl e \<Rightarrow> f e | Inr x \<Rightarrow> g (h x)) = (case map_sum id h r of Inl e \<Rightarrow> f e | Inr y \<Rightarrow> g y)"
  by (cases r) simp_all

lemma on_db_set [simp]: "fst (on_db f (s\<lparr>d_db := d\<rparr>)) = fst (f d)" "snd (on_db f (s\<lparr>d_db := d\<rparr>)) = s\<lparr>d_db := snd (f d)\<rparr>"
  by (simp_all add: on_db_def split_def Let_def)

text \<open>
  C15. No read of the settings API reveals a secret: the answers that list repositories, show one,
  list SSH keys or show the general settings are the same as if every encrypted token, every
  private key and every sensitive setting in the database had been overwritten. Only whether a
  token is set can be learnt.
\<close>

theorem reads_reveal_no_secret:
  "fst (handleListRepos pf (s\<lparr>d_db := blotted d\<rparr>)) = fst (handleListRepos pf (s\<lparr>d_db := d\<rparr>))
   \<and> fst (handleGetRepo pf i (s\<lparr>d_db := blotted d\<rparr>)) = fst (handleGetRepo pf i (s\<lparr>d_db := d\<rparr>))
   \<and> fst (handleListSSHKeys pf (s\<lparr>d_db := blotted d\<rparr>)) = fst (handleListSSHKeys pf (s\<lparr>d_db := d\<rparr>))
   \<and> fst (handleGetGeneralSettings (s\<lparr>d_db := blotted d\<rparr>)) = fst (handleGetGeneralSettings (s\<lparr>d_db := d\<rparr>))"
proof (intro conjI)
  show "fst (handleListRepos pf (s\<lparr>d_db := blotted d\<rparr>)) = fst (handleListRepos pf (s\<lparr>d_db := d\<rparr>))"
    by (simp add: handleListRepos_def split_def Let_def ListRepos_blot
        case_sum_map [where h = "map repoToResponse" and g = "\<lambda>x. jsonOK (ReposBody x)"])
  show "fst (handleGetRepo pf i (s\<lparr>d_db := blotted d\<rparr>)) = fst (handleGetRepo pf i (s\<lparr>d_db := d\<rparr>))"
    by (simp add: handleGetRepo_def split_def Let_def GetRepo_blot
        case_sum_map [where h = repoToResponse and g = "\<lambda>x. jsonOK (RepoBody x)"])
  show "fst (handleListSSHKeys pf (s\<lparr>d_db := blotted d\<rparr>)) = fst (handleListSSHKeys pf (s\<lparr>d_db := d\<rparr>))"
    by (simp add: handleListSSHKeys_def split_def Let_def ListSSHKeys_blot
        case_sum_map [where h = "map keyToResponse" and g = "\<lambda>x. jsonOK (KeysBody x)"])
  show "fst (handleGetGeneralSettings (s\<lparr>d_db := blotted d\<rparr>)) = fst (handleGetGeneralSettings (s\<lparr>d_db := d\<rparr>))"
    by (simp add: handleGetGeneralSettings_def split_def Let_def GetAllSettings_blot GetSetting_blot
        split: sum.splits)
qed

section \<open>Writing general settings\<close>

lemma write_settings_Cons:
  "write_settings pf (kv # kvs) s =
     (let s1 = snd (time_Now (pf_os pf) s);
          r = on_db (SetSetting (pf_dt pf) (fst (time_Now (pf_os pf) s)) (fst kv) (snd kv)) s1 in
      case fst r of Inl _ \<Rightarrow> (Some (fst kv), snd r) | Inr _ \<Rightarrow> write_settings pf kvs (snd r))"
  by (cases kv) (auto simp: split_def Let_def split: sum.splits)

lemma write_settings_inner [frame_simps]: "inner (snd (write_settings pf kvs s)) = inner s"
  by (induction kvs arbitrary: s) (simp_all add: write_settings_Cons Let_def frame_simps split: sum.splits)

lemma write_settings_ok:
  assumes "faults (d_db s) = []"
  shows "fst (write_settings pf kvs s) = None \<and> faults (d_db (snd (write_settings pf kvs s))) = []
    \<and> setting_text (db_settings (d_db (snd (write_settings pf kvs s)))) k =
        (case map_of (rev kvs) k of None \<Rightarrow> setting_text (db_settings (d_db s)) k | Some v \<Rightarrow> Some v)"
  using assms
proof (induction kvs arbitrary: s)
  case Nil
  then show ?case by simp
next
  case (Cons kv kvs)
  obtain k0 v0 where kv: "kv = (k0, v0)" by fastforce
  let ?s1 = "snd (time_Now (pf_os pf) s)" and ?now = "fst (time_Now (pf_os pf) s)"
  let ?r = "on_db (SetSetting (pf_dt pf) ?now k0 v0) ?s1"
  have f: "faults (d_db ?s1) = []" using Cons by (simp add: frame_simps)
  have r: "fst ?r = Inr ()" "faults (d_db (snd ?r)) = []"
    "setting_text (db_settings (d_db (snd ?r))) k = (if k0 = k then Some v0 else setting_text (db_settings (d_db s)) k)"
    using f by (simp_all add: frame_simps SetSetting_ok setting_text_upsert)
  have w: "write_settings pf (kv # kvs) s = write_settings pf kvs (snd ?r)"
    using r(1) kv by (simp add: write_settings_Cons Let_def)
  have m: "(case map_of (rev (kv # kvs)) k of None \<Rightarrow> setting_text (db_settings (d_db s)) k | Some v \<Rightarrow> Some v)
      = (case map_of (rev kvs) k of None \<Rightarrow> setting_text (db_settings (d_db (snd ?r))) k | Some v \<Rightarrow> Some v)"
    using r(3) kv by (cases "map_of (rev kvs) k") (auto simp: map_add_def)
  show ?case unfolding w m by (rule Cons.IH [OF r(2)])
qed

lemma GetSetting_text:
  assumes "faults d = []" "setting_text (db_settings d) k = Some v"
  shows "\<exists>b. fst (GetSetting k d) = Inr (v, b)"
  using assms by (auto simp: GetSetting_ok setting_text_def split: option.splits)

lemma GetAllSettings_faultless: "faults d = [] \<Longrightarrow> \<exists>m. GetAllSettings d = (Inr m, d)"
  by (simp add: GetAllSettings_def)

lemma loadInfisical_token:
  assumes "faults (d_db s) = []" "setting_text (db_settings (d_db s)) ''infisical_token'' = Some enc" "enc \<noteq> []"
    and "Decrypt (pf_aead pf) (cf_cryptoKey cf) enc = Inr t"
  shows "ic_Token (fst (loadInfisicalFromDB pf cf s)) = t"
proof -
  obtain m where m: "GetAllSettings (d_db s) = (Inr m, d_db s)" using GetAllSettings_faultless [OF assms(1)] by blast
  obtain b where b: "fst (GetSetting ''infisical_token'' (d_db s)) = Inr (enc, b)"
    using GetSetting_text [OF assms(1,2)] by blast
  show ?thesis
    using m b assms(3,4) by (simp add: loadInfisicalFromDB_def split_def Let_def frame_simps)
qed

definition no_changes :: generalSettingsRequest where
  "no_changes = \<lparr>gr_InfisicalToken = None, gr_InfisicalProjectID = None, gr_InfisicalEnv = None, gr_InfisicalURL = None,
     gr_GitUserName = None, gr_GitUserEmail = None, gr_DashboardToken = None, gr_DefaultSyncInterval = None\<rparr>"



text \<open>
  A failing write in the middle of a settings update leaves the stored dashboard token and the
  one the server checks apart: with a database whose second write fails, the update of the token
  and of the sync interval is answered 500, the server still checks the old token, and the new one
  is what a restart would load.
\<close>

theorem partial_settings_update:
  "let req = no_changes\<lparr>gr_DashboardToken := Some ''new'', gr_DefaultSyncInterval := Some 30\<rparr>;
       (resp, s') = handleUpdateGeneralSettings demo_pf demo_cf None (Some req)
                      (demo_service\<lparr>d_db := fresh_database [False, True]\<rparr>) in
   resp_Code resp = 500 \<and> sv_token s' = ''old'' \<and> fst (GetSetting ''dashboard_token'' (d_db s')) = Inr (''new'', True)"
  by code_simp

section \<open>What the API lets into the repositories table\<close>

definition row_valid :: "'w platform \<Rightarrow> repo_row \<Rightarrow> bool" where
  "row_valid pf r \<longleftrightarrow> ValidateRepoName (row_name r) = Inr () \<and> ValidateRepoURL (pf_ut pf) (pf_ip6 pf) (row_url r) = Inr ()
     \<and> ValidateRef (row_branch r) = Inr () \<and> ValidateRef (row_remote r) = Inr () \<and> 0 \<le> sint (row_sync_interval r)"

definition rows_valid :: "'w platform \<Rightarrow> database \<Rightarrow> bool" where
  "rows_valid pf d \<longleftrightarrow> list_all (row_valid pf) (db_repos d)"

text \<open>Every request of the settings API, with any body, any randomness and any database outcome.\<close>

inductive settings_step :: "'w platform \<Rightarrow> config \<Rightarrow> 'w service \<Rightarrow> 'w service \<Rightarrow> bool"
  for pf :: "'w platform" and cf :: config where
  create_repo: "settings_step pf cf s (snd (handleCreateRepo pf cf nonce uuid rq s))"
| update_repo: "settings_step pf cf s (snd (handleUpdateRepo pf cf nonce i rq s))"
| delete_repo: "settings_step pf cf s (snd (handleDeleteRepo i s))"
| list_repos: "settings_step pf cf s (snd (handleListRepos pf s))"
| get_repo: "settings_step pf cf s (snd (handleGetRepo pf i s))"
| create_key: "settings_step pf cf s (snd (handleCreateSSHKey pf cf parse nonce uuid rq s))"
| delete_key: "settings_step pf cf s (snd (handleDeleteSSHKey i s))"
| list_keys: "settings_step pf cf s (snd (handleListSSHKeys pf s))"
| get_general: "settings_step pf cf s (snd (handleGetGeneralSettings s))"
| put_general: "settings_step pf cf s (snd (handleUpdateGeneralSettings pf cf nonce rq s))"

inductive_cases settings_stepE: "settings_step pf cf s t"

lemma check_create_valid:
  assumes "check_create pf req0 = Inr req"
  shows "ValidateRepoName (rr_Name req) = Inr () \<and> ValidateRepoURL (pf_ut pf) (pf_ip6 pf) (rr_URL req) = Inr ()
     \<and> ValidateRef (rr_Branch req) = Inr () \<and> ValidateRef (rr_Remote req) = Inr () \<and> 0 \<le> sint (rr_SyncInterval req)"
  using assms by (auto simp: check_create_def Let_def not_less split: if_splits sum.splits)

lemma upd_Inr:
  "upd v check put acc = Inr r \<Longrightarrow> \<exists>r0. acc = Inr r0 \<and> r = (if v = [] then r0 else put v r0) \<and> (v = [] \<or> check v = Inr ())"
  by (auto simp: upd_def split: sum.splits if_splits)

definition merge_ok :: "'w platform \<Rightarrow> RepoDB \<Rightarrow> bool" where
  "merge_ok pf r \<longleftrightarrow> ValidateRepoName (rdb_Name r) = Inr () \<and> ValidateRepoURL (pf_ut pf) (pf_ip6 pf) (rdb_URL r) = Inr ()
     \<and> ValidateRef (rdb_Branch r) = Inr () \<and> ValidateRef (rdb_Remote r) = Inr () \<and> 0 \<le> sint (rdb_SyncInterval r)"

lemma merge_update_ok:
  assumes "merge_ok pf r" "merge_update pf req r = Inr m"
  shows "merge_ok pf m"
proof -
  let ?u1 = "upd (rr_Name req) ValidateRepoName (\<lambda>v r. r\<lparr>rdb_Name := v\<rparr>) (Inr r)"
  let ?u2 = "upd (rr_URL req) (ValidateRepoURL (pf_ut pf) (pf_ip6 pf)) (\<lambda>v r. r\<lparr>rdb_URL := v\<rparr>) ?u1"
  let ?u3 = "upd (rr_Branch req) ValidateRef (\<lambda>v r. r\<lparr>rdb_Branch := v\<rparr>) ?u2"
  let ?u4 = "upd (rr_Remote req) ValidateRef (\<lambda>v r. r\<lparr>rdb_Remote := v\<rparr>) ?u3"
  obtain r4 where r4: "?u4 = Inr r4" using assms(2) by (cases ?u4) (auto simp: merge_update_def)
  from upd_Inr [OF this] obtain r3 where
    r3: "?u3 = Inr r3" "r4 = (if rr_Remote req = [] then r3 else r3\<lparr>rdb_Remote := rr_Remote req\<rparr>)"
      "rr_Remote req = [] \<or> ValidateRef (rr_Remote req) = Inr ()" by blast
  from upd_Inr [OF r3(1)] obtain r2 where
    r2: "?u2 = Inr r2" "r3 = (if rr_Branch req = [] then r2 else r2\<lparr>rdb_Branch := rr_Branch req\<rparr>)"
      "rr_Branch req = [] \<or> ValidateRef (rr_Branch req) = Inr ()" by blast
  from upd_Inr [OF r2(1)] obtain r1 where
    r1: "?u1 = Inr r1" "r2 = (if rr_URL req = [] then r1 else r1\<lparr>rdb_URL := rr_URL req\<rparr>)"
      "rr_URL req = [] \<or> ValidateRepoURL (pf_ut pf) (pf_ip6 pf) (rr_URL req) = Inr ()" by blast
  from upd_Inr [OF r1(1)] have
    r0: "r1 = (if rr_Name req = [] then r else r\<lparr>rdb_Name := rr_Name req\<rparr>)"
      "rr_Name req = [] \<or> ValidateRepoName (rr_Name req) = Inr ()" by auto
  have "merge_ok pf r1" using assms(1) r0 by (auto simp: merge_ok_def)
  then have "merge_ok pf r2" using r1 by (auto simp: merge_ok_def)
  then have "merge_ok pf r3" using r2 by (auto simp: merge_ok_def)
  then have "merge_ok pf r4" using r3 by (auto simp: merge_ok_def)
  then show ?thesis using assms(2) r4
    by (auto simp: merge_update_def merge_ok_def Let_def split: option.splits)
qed

lemma merge_ok_scan: "merge_ok pf (scanRepo dt r) = row_valid pf r"
  by (simp add: merge_ok_def scanRepo_def row_valid_def)

lemma merge_ok_columns: "merge_ok pf r \<Longrightarrow> row_valid pf (set_repo_columns dt now r row)"
  by (simp add: merge_ok_def set_repo_columns_def row_valid_def)

lemma merge_ok_secret [simp]: "merge_ok pf (r\<lparr>rdb_PATEnc := p\<rparr>) = merge_ok pf r" "merge_ok pf (r\<lparr>rdb_ID := i\<rparr>) = merge_ok pf r"
  by (simp_all add: merge_ok_def)

lemma rows_valid_same: "same_tables d d' \<Longrightarrow> rows_valid pf d' = rows_valid pf d"
  by (simp add: rows_valid_def same_tables_def)

lemma rows_valid_Create: "rows_valid pf d \<Longrightarrow> merge_ok pf r \<Longrightarrow> rows_valid pf (snd (CreateRepo dt rnd now r d))"
  by (rule driver_callE [of d])
    (auto simp: CreateRepo_def Let_def same_tables_def rows_valid_def insert_repo_def row_valid_def merge_ok_def
      split: option.splits)

lemma rows_valid_Update: "rows_valid pf d \<Longrightarrow> merge_ok pf r \<Longrightarrow> rows_valid pf (snd (db_UpdateRepo dt now r d))"
  by (rule driver_callE [of d])
    (auto simp: db_UpdateRepo_def same_tables_def rows_valid_def update_repo_def merge_ok_columns list_all_iff
      split: option.splits)

lemma rows_valid_Delete: "rows_valid pf d \<Longrightarrow> rows_valid pf (snd (DeleteRepo i d))"
  by (rule driver_callE [of d]) (auto simp: DeleteRepo_def same_tables_def rows_valid_def list_all_iff)

lemma repos_kept [simp]:
  "db_repos (snd (ListRepos dt d)) = db_repos d" "db_repos (snd (db_GetRepo dt i d)) = db_repos d"
  "db_repos (snd (ListSSHKeys dt d)) = db_repos d" "db_repos (snd (GetAllSettings d)) = db_repos d"
  "db_repos (snd (GetSetting k d)) = db_repos d" "db_repos (snd (SetSetting dt now k v d)) = db_repos d"
  "db_repos (snd (CreateSSHKey dt rnd now key d)) = db_repos d" "db_repos (snd (DeleteSSHKey i d)) = db_repos d"
  by (simp_all add: ListRepos_def db_GetRepo_def select_repo_def ListSSHKeys_def GetAllSettings_def GetSetting_def
      SetSetting_def CreateSSHKey_def DeleteSSHKey_def split_def Let_def split: option.splits)

lemma write_settings_repos [simp]: "db_repos (d_db (snd (write_settings pf kvs s))) = db_repos (d_db s)"
  by (induction kvs arbitrary: s) (simp_all add: write_settings_Cons Let_def frame_simps split: sum.splits)

lemma db_GetRepo_row:
  "fst (db_GetRepo dt i d) = Inr r \<Longrightarrow> \<exists>row \<in> set (db_repos d). r = scanRepo dt row"
  by (auto simp: db_GetRepo_def select_repo_def split_def Let_def find_Some_iff split: if_splits option.splits)

lemma rows_valid_kept [simp]:
  "rows_valid pf (snd (ListRepos dt d)) = rows_valid pf d" "rows_valid pf (snd (db_GetRepo dt i d)) = rows_valid pf d"
  by (simp_all add: rows_valid_def)

lemma rows_valid_create: "rows_valid pf (d_db s) \<Longrightarrow> rows_valid pf (d_db (snd (handleCreateRepo pf cf nonce uuid rq s)))"
proof -
  assume v: "rows_valid pf (d_db s)"
  have c: "rows_valid pf (snd (CreateRepo (pf_dt pf) uuid now (repo_of_request req enc) (d_db s)))"
    if "check_create pf req0 = Inr req" for req0 req now enc
    using check_create_valid [OF that] v by (intro rows_valid_Create) (simp_all add: merge_ok_def repo_of_request_def)
  show ?thesis
    using v c by (simp add: handleCreateRepo_def split_def Let_def frame_simps split: option.splits sum.splits)
qed

lemma rows_valid_update: "rows_valid pf (d_db s) \<Longrightarrow> rows_valid pf (d_db (snd (handleUpdateRepo pf cf nonce i rq s)))"
proof -
  assume v: "rows_valid pf (d_db s)"
  let ?d = "snd (db_GetRepo (pf_dt pf) i (d_db s))"
  have u: "merge_ok pf m"
    if g: "fst (db_GetRepo (pf_dt pf) i (d_db s)) = Inr r" and m: "merge_update pf req r = Inr m" for r req m
  proof -
    have "merge_ok pf r" using db_GetRepo_row [OF g] v by (auto simp: merge_ok_scan rows_valid_def list_all_iff)
    from merge_update_ok [OF this m] show ?thesis .
  qed
  have w: "rows_valid pf (snd (db_UpdateRepo dt now m ?d))" if "merge_ok pf m" for dt now m
    using v that by (intro rows_valid_Update) simp_all
  show ?thesis
    using v u w by (simp add: handleUpdateRepo_def split_def Let_def frame_simps split: option.splits sum.splits)
qed

lemma settings_step_valid: "rows_valid pf (d_db s) \<Longrightarrow> settings_step pf cf s t \<Longrightarrow> rows_valid pf (d_db t)"
proof (elim settings_stepE)
  assume v: "rows_valid pf (d_db s)"
  show "t = snd (handleCreateRepo pf cf nonce uuid rq s) \<Longrightarrow> rows_valid pf (d_db t)" for nonce uuid rq
    using rows_valid_create [OF v] by simp
  show "t = snd (handleUpdateRepo pf cf nonce i rq s) \<Longrightarrow> rows_valid pf (d_db t)" for nonce i rq
    using rows_valid_update [OF v] by simp
  show "t = snd (handleDeleteRepo i s) \<Longrightarrow> rows_valid pf (d_db t)" for i
    using rows_valid_Delete [OF v] by (simp add: handleDeleteRepo_def split_def Let_def frame_simps)
qed (auto simp: rows_valid_def handleListRepos_def handleGetRepo_def handleCreateSSHKey_def handleDeleteSSHKey_def
    handleListSSHKeys_def handleGetGeneralSettings_def handleUpdateGeneralSettings_def SetToken_def split_def Let_def
    frame_simps split: option.splits sum.splits)

interpretation settings_api: transition_system "\<lambda>s. db_repos (d_db s) = []" "settings_step pf cf" "\<lambda>s. rows_valid pf (d_db s)"
  for pf cf
  by unfold_locales (simp_all add: rows_valid_def settings_step_valid [unfolded rows_valid_def])

text \<open>
  C11. Whatever requests the settings API serves, every repository in the database has a name that is
  a single path component, a URL of an allowed transport, a branch and a remote that \<^verbatim>\<open>git\<close> cannot
  read as options, and a sync interval that is not negative.
\<close>

theorem api_rows_valid:
  assumes "reach (\<lambda>s. db_repos (d_db s) = []) (settings_step pf cf) s" and "row \<in> set (db_repos (d_db s))"
  shows "row_valid pf row"
  using settings_api.reach_invariant [OF assms(1)] assms(2) by (simp add: rows_valid_def list_all_iff)

definition plex_request :: repoRequest where
  "plex_request = \<lparr>rr_Name = ''plex'', rr_URL = ''https://git.example/plex'', rr_Branch = [], rr_Remote = [],
     rr_AuthType = ''none'', rr_SSHKeyID = [], rr_PAT = [], rr_StacksDir = [], rr_SyncInterval = 0, rr_Enabled = None\<rparr>"

theorem api_rows_valid_witness:
  "row_valid demo_pf (hd (db_repos (d_db (snd (handleCreateRepo demo_pf demo_cf None (Some (replicate 16 7))
     (Some plex_request) demo_service)))))"
proof (rule api_rows_valid)
  let ?s = "snd (handleCreateRepo demo_pf demo_cf None (Some (replicate 16 7)) (Some plex_request) demo_service)"
  have "reach (\<lambda>s. db_repos (d_db s) = []) (settings_step demo_pf demo_cf) demo_service"
    by (rule reach_init) (simp add: demo_service_def fresh_database_def)
  then show "reach (\<lambda>s. db_repos (d_db s) = []) (settings_step demo_pf demo_cf) ?s"
    by (rule reach_step) (rule create_repo)
  have "db_repos (d_db ?s) \<noteq> []" by code_simp
  then show "hd (db_repos (d_db ?s)) \<in> set (db_repos (d_db ?s))" by simp
qed

end
