(* ===== verification/Serve.thy ===== *)
theory Serve
  imports Settings
begin

text \<open>
  The whole HTTP service (\<^verbatim>\<open>registerRoutes\<close>, \<^verbatim>\<open>New\<close> and the composition of the middlewares in
  \<^verbatim>\<open>src/internal/server/server.go\<close>): the table of routes, what \<^verbatim>\<open>net/http\<close>'s multiplexer does with it,
  the dispatch to the handlers of \<open>Server_Core\<close> and \<open>Settings\<close>, and the service as one function from
  a request and a state to a response and a state. What a request brings besides its head is in
  \<open>inputs\<close>, what the service shows of code outside the repository in \<open>site\<close>.
\<close>

section \<open>Routes\<close>

datatype segment = Lit string | Wild

datatype endpoint =
    Assets
  | Page
  | Status
  | Sync
  | Logs
  | ExecShell
  | Activity
  | Apply
  | ComposeFile
  | ContainerAction string
  | Healthz
  | Readyz
  | MetricsPage
  | List_repos
  | Create_repo
  | Get_repo
  | Update_repo
  | Delete_repo
  | List_keys
  | Create_key
  | Delete_key
  | Get_general
  | Put_general
  | System_info

record route =
  rt_Method :: string
  rt_Pattern :: "segment list"
  rt_Endpoint :: endpoint

definition api :: "segment list \<Rightarrow> segment list" where
  "api p = Lit ''api'' # p"

definition get :: "segment list \<Rightarrow> endpoint \<Rightarrow> route" where
  "get p e = \<lparr>rt_Method = ''GET'', rt_Pattern = p, rt_Endpoint = e\<rparr>"

definition post :: "segment list \<Rightarrow> endpoint \<Rightarrow> route" where
  "post p e = \<lparr>rt_Method = ''POST'', rt_Pattern = p, rt_Endpoint = e\<rparr>"

definition put :: "segment list \<Rightarrow> endpoint \<Rightarrow> route" where
  "put p e = \<lparr>rt_Method = ''PUT'', rt_Pattern = p, rt_Endpoint = e\<rparr>"

definition delete :: "segment list \<Rightarrow> endpoint \<Rightarrow> route" where
  "delete p e = \<lparr>rt_Method = ''DELETE'', rt_Pattern = p, rt_Endpoint = e\<rparr>"

text \<open>The routes with an exact number of segments; the two subtrees are in \<open>mux_match\<close>.\<close>

definition routes :: "route list" where
  "routes =
     [get (api [Lit ''status'']) Status,
      post (api [Lit ''sync'', Wild]) Sync,
      get (api [Lit ''logs'', Wild]) Logs,
      get (api [Lit ''exec'', Wild]) ExecShell,
      get (api [Lit ''activity'']) Activity,
      post (api [Lit ''stacks'', Wild, Wild, Lit ''apply'']) Apply,
      get (api [Lit ''stacks'', Wild, Wild, Lit ''compose'']) ComposeFile,
      post (api [Lit ''containers'', Wild, Lit ''start'']) (ContainerAction ''start''),
      post (api [Lit ''containers'', Wild, Lit ''stop'']) (ContainerAction ''stop''),
      post (api [Lit ''containers'', Wild, Lit ''restart'']) (ContainerAction ''restart''),
      get [Lit ''healthz''] Healthz,
      get [Lit ''readyz''] Readyz,
      get [Lit ''metrics''] MetricsPage,
      get (api [Lit ''settings'', Lit ''repos'']) List_repos,
      post (api [Lit ''settings'', Lit ''repos'']) Create_repo,
      get (api [Lit ''settings'', Lit ''repos'', Wild]) Get_repo,
      put (api [Lit ''settings'', Lit ''repos'', Wild]) Update_repo,
      delete (api [Lit ''settings'', Lit ''repos'', Wild]) Delete_repo,
      get (api [Lit ''settings'', Lit ''ssh-keys'']) List_keys,
      post (api [Lit ''settings'', Lit ''ssh-keys'']) Create_key,
      delete (api [Lit ''settings'', Lit ''ssh-keys'', Wild]) Delete_key,
      get (api [Lit ''settings'', Lit ''general'']) Get_general,
      put (api [Lit ''settings'', Lit ''general'']) Put_general,
      get (api [Lit ''settings'', Lit ''system'']) System_info]"

text \<open>A wildcard takes one segment, not the empty one that a trailing slash leaves.\<close>

fun match_segs :: "segment list \<Rightarrow> string list \<Rightarrow> string list option" where
  "match_segs [] [] = Some []"
| "match_segs (Lit l # ps) (s # ss) = (if s = l then match_segs ps ss else None)"
| "match_segs (Wild # ps) (s # ss) =
     (if s = [] \<or> s = ''/'' then None else map_option (Cons s) (match_segs ps ss))"
| "match_segs _ _ = None"

definition serves_method :: "string \<Rightarrow> string \<Rightarrow> bool" where
  "serves_method pattern_method m \<longleftrightarrow> m = pattern_method \<or> (pattern_method = ''GET'' \<and> m = ''HEAD'')"

fun first_route :: "route list \<Rightarrow> string \<Rightarrow> string list \<Rightarrow> (endpoint \<times> string list) option" where
  "first_route [] m segs = None"
| "first_route (r # rs) m segs =
     (case (if serves_method (rt_Method r) m then match_segs (rt_Pattern r) segs else None) of
        Some vals \<Rightarrow> Some (rt_Endpoint r, vals)
      | None \<Rightarrow> first_route rs m segs)"

definition mux_match :: "string \<Rightarrow> string list \<Rightarrow> (endpoint \<times> string list) option" where
  "mux_match m segs =
     (case first_route routes m segs of
        Some e \<Rightarrow> Some e
      | None \<Rightarrow>
          if \<not> serves_method ''GET'' m then None
          else if length segs \<ge> 2 \<and> hd segs = ''assets'' then Some (Assets, []) else Some (Page, []))"

section \<open>Dispatch\<close>

datatype reply =
    Core body
  | Api settings_body
  | Events nat
  | Session exec_start
  | NetHttp

record inputs =
  in_repo :: "repoRequest option"
  in_key :: "sshKeyRequest option"
  in_general :: "generalSettingsRequest option"
  in_nonce :: "string option"
  in_uuid :: "8 word list option"
  in_upgrade_refused :: "nat option"

record site =
  st_index :: string
  st_static :: "string \<Rightarrow> nat \<times> string"
  st_metrics :: metrics_runtime
  st_parse_key :: "string \<Rightarrow> string + string"
  st_duration :: "duration \<Rightarrow> string"
  st_goVersion :: string

definition wrap :: "('b \<Rightarrow> reply) \<Rightarrow> 'b response \<Rightarrow> reply response" where
  "wrap f r = \<lparr>resp_Code = resp_Code r, resp_Headers = resp_Headers r, resp_Body = f (resp_Body r)\<rparr>"

definition wrapped :: "('b \<Rightarrow> reply) \<Rightarrow> 'b response \<times> 's \<Rightarrow> reply response \<times> 's" where
  "wrapped f p = (wrap f (fst p), snd p)"

definition plain :: "nat \<Rightarrow> (string \<times> string) list \<Rightarrow> body \<Rightarrow> reply response" where
  "plain code hs b = \<lparr>resp_Code = code, resp_Headers = hs, resp_Body = Core b\<rparr>"

definition static_page :: "site \<Rightarrow> request \<Rightarrow> reply response" where
  "static_page site rq =
     (if rq_Path rq = ''/'' then plain 200 [(''Content-Type'', ''text/html; charset=utf-8'')] (StaticBody (st_index site))
      else let (code, content) = st_static site (rq_Path rq) in plain code [] (StaticBody content))"

definition exec_reply :: "inputs \<Rightarrow> exec_start \<times> 's \<Rightarrow> reply response \<times> 's" where
  "exec_reply inp p =
     (case fst p of
        Exec_http r \<Rightarrow> wrap Core r
      | Exec_not_upgraded \<Rightarrow>
          \<lparr>resp_Code = (case in_upgrade_refused inp of Some code \<Rightarrow> code | None \<Rightarrow> 403), resp_Headers = [],
           resp_Body = Session Exec_not_upgraded\<rparr>
      | e \<Rightarrow> \<lparr>resp_Code = 101, resp_Headers = [], resp_Body = Session e\<rparr>, snd p)"

definition run_endpoint ::
    "'w platform \<Rightarrow> config \<Rightarrow> site \<Rightarrow> inputs \<Rightarrow> request \<Rightarrow> endpoint \<Rightarrow> string list \<Rightarrow> 'w service \<Rightarrow> reply response \<times> 'w service" where
  "run_endpoint pf cf site inp rq ep vals s =
     (let v0 = (case vals of [] \<Rightarrow> [] | v # _ \<Rightarrow> v); v1 = (case vals of _ # v # _ \<Rightarrow> v | _ \<Rightarrow> []) in
      case ep of
        Assets \<Rightarrow> (let (code, content) = st_static site (rq_Path rq) in (plain code [] (StaticBody content), s))
      | Page \<Rightarrow> (static_page site rq, s)
      | Status \<Rightarrow> (wrap Core (handleStatus pf s), s)
      | Sync \<Rightarrow> wrapped Core (handleSync pf v0 s)
      | Logs \<Rightarrow> wrapped Core (handleLogs pf v0 s)
      | ExecShell \<Rightarrow> exec_reply inp (handleExec pf rq (in_upgrade_refused inp = None) v0 s)
      | Activity \<Rightarrow>
          (let ((ch, r), s1) = activity_open s in
           (\<lparr>resp_Code = resp_Code r, resp_Headers = resp_Headers r, resp_Body = Events ch\<rparr>, s1))
      | Apply \<Rightarrow> wrapped Core (handleApplyStack v0 v1 s)
      | ComposeFile \<Rightarrow> (wrap Core (handleComposeFile pf v0 v1 s), s)
      | ContainerAction a \<Rightarrow> wrapped Core (handleContainerAction pf v0 a s)
      | Healthz \<Rightarrow> (wrap Core handle_healthz, s)
      | Readyz \<Rightarrow> (wrap Core (handle_readyz pf s), s)
      | MetricsPage \<Rightarrow>
          (plain 200 [(''Content-Type'', ''text/plain; version=0.0.4'')]
             (TextBody (metrics_Handler (st_metrics site) (d_metrics s))), s)
      | List_repos \<Rightarrow> wrapped Api (handleListRepos pf s)
      | Create_repo \<Rightarrow> wrapped Api (handleCreateRepo pf cf (in_nonce inp) (in_uuid inp) (in_repo inp) s)
      | Get_repo \<Rightarrow> wrapped Api (handleGetRepo pf v0 s)
      | Update_repo \<Rightarrow> wrapped Api (handleUpdateRepo pf cf (in_nonce inp) v0 (in_repo inp) s)
      | Delete_repo \<Rightarrow> wrapped Api (handleDeleteRepo v0 s)
      | List_keys \<Rightarrow> wrapped Api (handleListSSHKeys pf s)
      | Create_key \<Rightarrow>
          wrapped Api (handleCreateSSHKey pf cf (st_parse_key site) (in_nonce inp) (in_uuid inp) (in_key inp) s)
      | Delete_key \<Rightarrow> wrapped Api (handleDeleteSSHKey v0 s)
      | Get_general \<Rightarrow> wrapped Api (handleGetGeneralSettings s)
      | Put_general \<Rightarrow> wrapped Api (handleUpdateGeneralSettings pf cf (in_nonce inp) (in_general inp) s)
      | System_info \<Rightarrow> wrapped Core (handleSystemInfo pf (st_duration site) (st_goVersion site) s))"

text \<open>
  The multiplexer: a path that is not clean, and \<^verbatim>\<open>/assets\<close> without its slash, are redirected; a path
  whose routes are for other methods is answered 405.
\<close>

definition route :: "'w platform \<Rightarrow> config \<Rightarrow> site \<Rightarrow> inputs \<Rightarrow> request \<Rightarrow> 'w service \<Rightarrow> reply response \<times> 'w service" where
  "route pf cf site inp rq s =
     (if rq_Method rq \<noteq> ''CONNECT''
         \<and> (\<not> rq_Canonical rq \<or> serves_method ''GET'' (rq_Method rq) \<and> rq_Segs rq = [''assets''])
      then (\<lparr>resp_Code = 301, resp_Headers = [], resp_Body = NetHttp\<rparr>, s)
      else case mux_match (rq_Method rq) (rq_Segs rq) of
        Some (ep, vals) \<Rightarrow> run_endpoint pf cf site inp rq ep vals s
      | None \<Rightarrow> (http_Error (\<lambda>m. Core (TextBody m)) ''Method Not Allowed'' 405, s))"

definition serve :: "'w platform \<Rightarrow> config \<Rightarrow> site \<Rightarrow> inputs \<Rightarrow> request \<Rightarrow> 'w service \<Rightarrow> reply response \<times> 'w service" where
  "serve pf cf site inp = securityHeaders (authMiddleware (\<lambda>m. Core (TextBody m)) (route pf cf site inp))"

section \<open>Lemmas on the multiplexer\<close>

lemma first_route_Some:
  "first_route rs m segs = Some (ep, vals) \<Longrightarrow>
   \<exists>r \<in> set rs. rt_Endpoint r = ep \<and> serves_method (rt_Method r) m \<and> match_segs (rt_Pattern r) segs = Some vals"
  by (induction rs) (auto split: option.splits if_splits)

text \<open>Whether some path matches both patterns.\<close>

fun overlap :: "segment list \<Rightarrow> segment list \<Rightarrow> bool" where
  "overlap [] [] = True"
| "overlap (Lit a # ps) (Lit b # qs) = (a = b \<and> overlap ps qs)"
| "overlap (p # ps) (q # qs) = overlap ps qs"
| "overlap _ _ = False"

lemma match_overlap: "match_segs p ss \<noteq> None \<Longrightarrow> match_segs q ss \<noteq> None \<Longrightarrow> overlap p q"
proof (induction p arbitrary: q ss)
  case Nil
  then show ?case by (cases ss; cases q; cases "hd q") auto
next
  case (Cons a p)
  then show ?case by (cases ss; cases q; cases a; cases "hd q") (auto split: if_splits)
qed

definition may_clash :: "route \<Rightarrow> route \<Rightarrow> bool" where
  "may_clash r q \<longleftrightarrow> rt_Method r = rt_Method q \<and> overlap (rt_Pattern r) (rt_Pattern q)"

fun pairwise_distinct :: "route list \<Rightarrow> bool" where
  "pairwise_distinct [] = True"
| "pairwise_distinct (r # rs) = (list_all (\<lambda>q. \<not> may_clash r q) rs \<and> pairwise_distinct rs)"

lemma routes_distinct: "pairwise_distinct routes"
  by code_simp

definition api_route :: "route \<Rightarrow> bool" where
  "api_route r = (case rt_Pattern r of Lit l # _ # _ \<Rightarrow> l = ''api'' | _ \<Rightarrow> False)"

definition open_endpoint :: "endpoint \<Rightarrow> bool" where
  "open_endpoint ep \<longleftrightarrow> ep = Healthz \<or> ep = Readyz \<or> ep = MetricsPage \<or> ep = Assets \<or> ep = Page"

lemma routes_open_or_api: "list_all (\<lambda>r. api_route r \<or> open_endpoint (rt_Endpoint r)) routes"
  by code_simp

lemma match_api: "api_route r \<Longrightarrow> match_segs (rt_Pattern r) segs = Some vals \<Longrightarrow> \<exists>s ss. segs = ''api'' # s # ss"
  by (cases "rt_Pattern r" rule: match_segs.cases [of "(_, segs)"])
    (auto simp: api_route_def split: list.splits segment.splits if_splits elim: match_segs.elims)

lemma pairwise_distinct_unique:
  assumes "pairwise_distinct rs" "r \<in> set rs" "q \<in> set rs" "may_clash r q" "may_clash q r"
  shows "r = q"
  using assms by (induction rs) (auto simp: list_all_iff)

lemma may_clash_sym: "may_clash r q \<Longrightarrow> match_segs (rt_Pattern r) ss \<noteq> None \<Longrightarrow> match_segs (rt_Pattern q) ss \<noteq> None
  \<Longrightarrow> may_clash q r"
  using match_overlap by (simp add: may_clash_def)

lemma mux_match_api:
  assumes "mux_match m segs = Some (ep, vals)"
  shows "open_endpoint ep \<or> (\<exists>s ss. segs = ''api'' # s # ss)"
proof (cases "first_route routes m segs")
  case None
  then show ?thesis using assms by (auto simp: mux_match_def open_endpoint_def split: if_splits)
next
  case (Some x)
  then have "first_route routes m segs = Some (ep, vals)" using assms by (simp add: mux_match_def)
  from first_route_Some [OF this] obtain r where
    r: "r \<in> set routes" "rt_Endpoint r = ep" "match_segs (rt_Pattern r) segs = Some vals" by blast
  then have "api_route r \<or> open_endpoint ep" using routes_open_or_api by (auto simp: list_all_iff)
  then show ?thesis using match_api [OF _ r(3)] by blast
qed

lemma api_path: "rq_Segs rq = ''api'' # s # ss \<Longrightarrow> HasPrefix (rq_Path rq) ''/api/''"
  by (simp add: rq_Path_def HasPrefix_def)

lemma open_endpoint_state: "open_endpoint ep \<Longrightarrow> snd (run_endpoint pf cf site inp rq ep vals s) = s"
  by (auto simp: open_endpoint_def run_endpoint_def split_def Let_def)

lemma route_open: "\<not> HasPrefix (rq_Path rq) ''/api/'' \<Longrightarrow> snd (route pf cf site inp rq s) = s"
  using mux_match_api [of "rq_Method rq" "rq_Segs rq"] api_path [of rq]
  by (auto simp: route_def open_endpoint_state split: option.splits prod.splits)

lemma open_path_api: "HasPrefix path ''/api/'' \<Longrightarrow> \<not> open_path path"
  by (auto simp: open_path_def HasPrefix_def prefix_def)

text \<open>No handler touches the security headers, but for repeating one of them.\<close>

definition keeps_header :: "string \<times> string \<Rightarrow> bool" where
  "keeps_header e \<longleftrightarrow> fst e \<notin> {''X-Frame-Options'', ''Referrer-Policy''} \<and> (fst e = ''X-Content-Type-Options'' \<longrightarrow> snd e = ''nosniff'')"

definition keeps :: "'b response \<Rightarrow> bool" where
  "keeps r \<longleftrightarrow> list_all keeps_header (resp_Headers r)"

lemma keeps_fold:
  "list_all keeps_header hs \<Longrightarrow> mget h ''X-Frame-Options'' = Some a \<Longrightarrow> mget h ''X-Content-Type-Options'' = Some ''nosniff''
   \<Longrightarrow> mget (fold (\<lambda>(k, v) h. mput k v h) hs h) ''X-Frame-Options'' = Some a
     \<and> mget (fold (\<lambda>(k, v) h. mput k v h) hs h) ''X-Content-Type-Options'' = Some ''nosniff''"
proof (induction hs arbitrary: h)
  case (Cons e hs)
  obtain k v where e: "e = (k, v)" by fastforce
  with Cons.prems have h: "mget (mput k v h) ''X-Frame-Options'' = Some a"
      "mget (mput k v h) ''X-Content-Type-Options'' = Some ''nosniff''"
    by (auto simp: keeps_header_def)
  show ?case unfolding e using Cons.IH [OF _ h] Cons.prems(1) by simp
qed simp

lemma keeps_makers [simp]:
  "keeps (json_response c b)" "keeps (http_Error f msg c)" "keeps (jsonOK sb)" "keeps (jsonError msg c)"
  "keeps (json_fields c kvs)" "keeps (text_error msg c)" "keeps aborted" "keeps handle_healthz"
  "keeps \<lparr>resp_Code = c, resp_Headers = [], resp_Body = x\<rparr>"
  "keeps \<lparr>resp_Code = c, resp_Headers = sse_headers, resp_Body = x\<rparr>"
  "keeps \<lparr>resp_Code = c, resp_Headers = [(''Content-Type'', t)], resp_Body = x\<rparr>"
  "keeps (set_header ''WWW-Authenticate'' realm (http_Error f msg c))"
  by (simp_all add: keeps_def keeps_header_def json_response_def http_Error_def jsonOK_def jsonError_def json_fields_def
      text_error_def aborted_def handle_healthz_def sse_headers_def set_header_def)

lemma keeps_wrap [simp]: "keeps (wrap f r) = keeps r" "keeps (fst (wrapped f p)) = keeps (fst p)"
  by (simp_all add: keeps_def wrap_def wrapped_def)

lemma keeps_server:
  "keeps (handle_readyz pf s)" "keeps (handleStatus pf s)" "keeps (fst (handleSync pf r s))"
  "keeps (handleComposeFile pf r n s)" "keeps (fst (handleApplyStack r n s))"
  "keeps (fst (handleContainerAction pf r a s))" "keeps (fst (handleSystemInfo pf sh v s))"
  "keeps (fst (handleLogs pf r d))"
  by (simp_all add: handle_readyz_def handleStatus_def handleSync_def handleComposeFile_def handleApplyStack_def
      handleContainerAction_def handleSystemInfo_def handleLogs_def split_def Let_def split: option.splits sum.splits)

lemma keeps_settings:
  "keeps (fst (handleListRepos pf d))" "keeps (fst (handleGetRepo pf i d))" "keeps (fst (handleDeleteRepo i d))"
  "keeps (fst (handleListSSHKeys pf d))" "keeps (fst (handleDeleteSSHKey i d))" "keeps (fst (handleGetGeneralSettings d))"
  by (simp_all add: handleListRepos_def handleGetRepo_def handleDeleteRepo_def handleListSSHKeys_def handleDeleteSSHKey_def
      handleGetGeneralSettings_def split_def Let_def split: option.splits sum.splits)

lemma keeps_create: "keeps (fst (handleCreateRepo pf cf nonce uuid rq d))"
  by (simp add: handleCreateRepo_def split_def Let_def split: option.splits sum.splits)

lemma keeps_update: "keeps (fst (handleUpdateRepo pf cf nonce i rq d))"
  by (simp add: handleUpdateRepo_def split_def Let_def split: option.splits sum.splits)

lemma keeps_create_key: "keeps (fst (handleCreateSSHKey pf cf parse nonce uuid rq d))"
  by (simp add: handleCreateSSHKey_def split_def Let_def split: option.splits sum.splits)

lemma keeps_put_general: "keeps (fst (handleUpdateGeneralSettings pf cf nonce rq s))"
  by (simp add: handleUpdateGeneralSettings_def split_def Let_def split: option.splits sum.splits)

lemma keeps_plain: "keeps (plain c [] b)" "keeps (plain c [(''Content-Type'', t)] b)" "keeps (static_page site rq)"
  by (simp_all add: plain_def static_page_def split_def Let_def)

lemma keeps_exec: "keeps (fst (exec_reply inp (handleExec pf rq ok v d)))"
  by (simp add: exec_reply_def handleExec_def split_def Let_def split: sum.splits)

lemma keeps_endpoint: "keeps (fst (run_endpoint pf cf site inp rq ep vals s))"
  by (cases ep) (simp_all add: run_endpoint_def split_def Let_def keeps_server keeps_settings keeps_create keeps_update
      keeps_create_key keeps_put_general keeps_plain keeps_exec activity_open_def)

lemma keeps_route: "keeps (fst (route pf cf site inp rq s))"
  by (simp add: route_def keeps_endpoint split: option.splits prod.splits)

section \<open>Properties\<close>

definition demo_site :: site where
  "demo_site = \<lparr>st_index = ''<html>'', st_static = (\<lambda>p. (404, ''404 page not found'')),
     st_metrics = \<lparr>mr_nested = (\<lambda>m. m), mr_counts = (\<lambda>m. m), mr_sums = (\<lambda>m. m), mr_stamps = (\<lambda>m. m),
        mr_float4 = (\<lambda>r. ''0''), mr_goroutines = 1, mr_threads = 1\<rparr>,
     st_parse_key = (\<lambda>k. Inr ''ssh-ed25519 AAAA''), st_duration = (\<lambda>d. ''1s''), st_goVersion = ''go1.25''\<rparr>"

definition no_inputs :: inputs where
  "no_inputs = \<lparr>in_repo = None, in_key = None, in_general = None, in_nonce = None, in_uuid = None, in_upgrade_refused = None\<rparr>"

definition demo_request :: "string \<Rightarrow> string list \<Rightarrow> string \<Rightarrow> request" where
  "demo_request m segs auth = \<lparr>rq_Method = m, rq_Segs = segs, rq_Canonical = True, rq_Host = ''stackd.lan'',
     rq_Authorization = auth, rq_Origin = [], rq_Query = []\<rparr>"

text \<open>A request that carries the token, in the header or as a query parameter.\<close>

definition presents :: "string \<Rightarrow> request \<Rightarrow> bool" where
  "presents token rq \<longleftrightarrow> token \<noteq> [] \<and> (rq_Authorization rq = ''Bearer '' @ token \<or> query_Get rq ''token'' = token)"

lemma ctEq_iff [simp]: "ctEq a b \<longleftrightarrow> a = b"
  by (auto simp: ctEq_def list.rel_eq)

lemma token_accepted_presents: "token \<noteq> [] \<Longrightarrow> token_accepted token rq = presents token rq"
  by (auto simp: token_accepted_def presents_def provided_token_def HasPrefix_def TrimPrefix_def prefix_def)

text \<open>
  C1. Nothing changes and nothing of the API is served without the dashboard token: a request that does
  not carry it leaves the whole service as it was, whatever its path and method; if its path is under
  \<^verbatim>\<open>/api/\<close> it is answered 401. With no token configured, every API request is refused.
\<close>

theorem api_needs_token:
  assumes "\<not> presents (sv_token s) rq"
  shows "snd (serve pf cf site inp rq s) = s
    \<and> (HasPrefix (rq_Path rq) ''/api/'' \<longrightarrow> resp_Code (fst (serve pf cf site inp rq s)) = 401)"
proof (cases "HasPrefix (rq_Path rq) ''/api/''")
  case True
  have "sv_token s \<noteq> [] \<Longrightarrow> \<not> token_accepted (sv_token s) rq" using assms token_accepted_presents by blast
  with True show ?thesis
    by (auto simp: serve_def securityHeaders_def authMiddleware_def open_path_api http_Error_def set_header_def Let_def)
next
  case False
  then have "open_path (rq_Path rq)" by (simp add: open_path_def)
  with False show ?thesis
    by (simp add: serve_def securityHeaders_def authMiddleware_def route_open split_def Let_def)
qed

theorem api_needs_token_witness:
  "snd (serve demo_pf demo_cf demo_site no_inputs (demo_request ''PUT'' [''api'', ''settings'', ''general''] ''Bearer guess'')
      demo_service) = demo_service
   \<and> resp_Code (fst (serve demo_pf demo_cf demo_site no_inputs
       (demo_request ''PUT'' [''api'', ''settings'', ''general''] ''Bearer guess'') demo_service)) = 401"
proof -
  let ?rq = "demo_request ''PUT'' [''api'', ''settings'', ''general''] ''Bearer guess''"
  have "\<not> presents (sv_token demo_service) ?rq"
    by (simp add: presents_def demo_request_def demo_service_def query_Get_def)
  from api_needs_token [OF this] show ?thesis by (simp add: demo_request_def rq_Path_def HasPrefix_def)
qed

text \<open>
  Every response, of every handler and of every refusal, carries the security headers: no page can
  be framed and no response is content-sniffed.
\<close>

theorem responses_carry_security_headers:
  "mget (resp_Headers (fst (serve pf cf site inp rq s))) ''X-Frame-Options'' = Some ''DENY''
   \<and> mget (resp_Headers (fst (serve pf cf site inp rq s))) ''X-Content-Type-Options'' = Some ''nosniff''"
proof -
  let ?r = "fst (authMiddleware (\<lambda>m. Core (TextBody m)) (route pf cf site inp) rq s)"
  have "keeps ?r" by (simp add: authMiddleware_def keeps_route)
  then show ?thesis
    by (simp add: serve_def securityHeaders_def split_def Let_def keeps_def keeps_fold [unfolded split_def])
qed

text \<open>
  The routing table is unambiguous: whatever the method and the path, at most one registered route
  serves the request, so the answer does not depend on the order of registration.
\<close>

theorem routes_unambiguous:
  assumes "r \<in> set routes" and "q \<in> set routes" and "serves_method (rt_Method r) m" and "serves_method (rt_Method q) m"
    and "match_segs (rt_Pattern r) segs \<noteq> None" and "match_segs (rt_Pattern q) segs \<noteq> None"
  shows "r = q"
proof -
  have "list_all (\<lambda>r. rt_Method r \<noteq> ''HEAD'') routes" by code_simp
  then have "rt_Method r = rt_Method q" using assms by (auto simp: list_all_iff serves_method_def)
  then have "may_clash r q" "may_clash q r"
    using match_overlap assms(5,6) by (auto simp: may_clash_def)
  then show ?thesis by (rule pairwise_distinct_unique [OF routes_distinct assms(1,2)])
qed

theorem routes_unambiguous_witness:
  "routes ! 0 = \<lparr>rt_Method = ''GET'', rt_Pattern = [Lit ''api'', Lit ''status''], rt_Endpoint = Status\<rparr>"
proof (rule routes_unambiguous [where m = "''HEAD''" and segs = "[''api'', ''status'']"])
  show "routes ! 0 \<in> set routes" by (rule nth_mem) (simp add: routes_def)
qed (simp_all add: routes_def get_def post_def put_def delete_def api_def serves_method_def)

end
