(* ===== verification/Startup.thy ===== *)
theory Startup
  imports Serve
begin

text \<open>
  What \<^verbatim>\<open>main\<close> does before its loop (\<^verbatim>\<open>src/main.go\<close>): the environment, the database, the key, the
  directories, the first syncs, the server and its token; and the body of the loop itself. Each
  \<^verbatim>\<open>os.Exit(1)\<close> is the result \<open>None\<close>. What the libraries deliver at start-up (the opened database,
  the key derivation, the random bytes) is in the record \<open>boot\<close>.
\<close>

section \<open>The dashboard token\<close>

definition dashboard_token_path :: "string \<Rightarrow> string" where
  "dashboard_token_path cloneDir = filepath_Join cloneDir ''dashboard_token''"

definition ensureDashboardToken ::
    "'w platform \<Rightarrow> string \<Rightarrow> string option \<Rightarrow> 'w service \<Rightarrow> string option \<times> 'w service" where
  "ensureDashboardToken pf cloneDir rnd s =
     (let envToken = os_Getenv (pf_os pf) (world s) ''DASHBOARD_TOKEN'' in
      if envToken \<noteq> [] then (None, SetToken envToken s)
      else
        (let (res, s1) = on_db (GetSetting ''dashboard_token'') s in
         if setting_or_empty res \<noteq> [] then (None, SetToken (setting_or_empty res) s1)
         else (case rnd of
           None \<Rightarrow> (Some ''generate dashboard token'', s1)
         | Some buf \<Rightarrow>
             (let token = RawURLEncode buf;
                  (written, s2) = write_file (pf_os pf) (dashboard_token_path cloneDir) (token @ [newline]) s1 in
              if \<not> written then (Some ''write dashboard token file'', s2)
              else
                (let (now, s3) = time_Now (pf_os pf) s2;
                     (stored, s4) = on_db (SetSetting (pf_dt pf) now ''dashboard_token'' token) s3 in
                 case stored of
                   Inl _ \<Rightarrow> (Some ''persist dashboard token'', s4)
                 | Inr _ \<Rightarrow> (None, SetToken token s4))))))"

section \<open>Demonstration data\<close>

definition Minute :: duration where
  "Minute = 60 * Second"

definition seeded_stack :: "string \<Rightarrow> gotime \<Rightarrow> ApplyStatus \<Rightarrow> string \<Rightarrow> StackState" where
  "seeded_stack n t status e =
     \<lparr>ss_Name = n, ss_RepoName = ''dockers'', ss_StackDir = [], ss_LastApply = t, ss_Status = status, ss_LastOutput = [],
      ss_LastError = e, ss_Containers = [], ss_InfisicalMode = []\<rparr>"

definition seedDevState :: "gotime \<Rightarrow> Store \<Rightarrow> Store" where
  "seedDevState now s =
     SetInfisical \<lparr>inf_Enabled = True, inf_Env = ''prod''\<rparr>
     (UpdateStack (seeded_stack ''redis'' (time_Add now (- 30 * Minute)) ApplyError ''image pull failed: rate limit exceeded'')
     (UpdateStack (seeded_stack ''litellm'' (time_Add now (- 1 * Minute)) ApplyApplying [])
     (UpdateStack (seeded_stack ''plex'' (time_Add now (- 15 * Minute)) ApplyOK [])
     (UpdateStack (seeded_stack ''monitorss'' (time_Add now (- 3 * Minute)) ApplyOK [])
     (UpdateRepo \<lparr>rs_Name = ''cluster'', rs_LastSync = time_Add now (- 12 * Minute), rs_LastSHA = ''b8e2d47'',
                  rs_Status = StatusError, rs_LastError = ''git pull: exit status 1''\<rparr>
     (UpdateRepo \<lparr>rs_Name = ''dockers'', rs_LastSync = time_Add now (- 3 * Minute), rs_LastSHA = ''a3f9c12'',
                  rs_Status = StatusOK, rs_LastError = []\<rparr> s))))))"

section \<open>The environment\<close>

text \<open>The logger: what is printed and how, chosen by two variables.\<close>

datatype log_level = LevelDebug | LevelInfo | LevelWarn | LevelError

definition choose_log_level :: "'w platform \<Rightarrow> 'w \<Rightarrow> log_level" where
  "choose_log_level pf w =
     (let v = ToLower (pf_ut pf) (os_Getenv (pf_os pf) w ''LOG_LEVEL'') in
      if v = ''debug'' then LevelDebug else if v = ''warn'' then LevelWarn
      else if v = ''error'' then LevelError else LevelInfo)"

text \<open>A record is printed when its level is at least the chosen one; \<^verbatim>\<open>slog\<close> numbers the levels.\<close>

fun level_value :: "log_level \<Rightarrow> int" where
  "level_value LevelDebug = - 4"
| "level_value LevelInfo = 0"
| "level_value LevelWarn = 4"
| "level_value LevelError = 8"

lemma level_value_inject: "level_value l = level_value m \<longleftrightarrow> l = m"
  by (cases l; cases m) auto

instantiation log_level :: linorder
begin

definition less_eq_log_level :: "log_level \<Rightarrow> log_level \<Rightarrow> bool" where
  "less_eq_log_level l m \<longleftrightarrow> level_value l \<le> level_value m"

definition less_log_level :: "log_level \<Rightarrow> log_level \<Rightarrow> bool" where
  "less_log_level l m \<longleftrightarrow> level_value l < level_value m"

instance
  by standard (auto simp: less_eq_log_level_def less_log_level_def level_value_inject)

end

definition log_enabled :: "'w platform \<Rightarrow> 'w \<Rightarrow> log_level \<Rightarrow> bool" where
  "log_enabled pf w l \<longleftrightarrow> choose_log_level pf w \<le> l"

lemma log_enabled_mono: "log_enabled pf w l \<Longrightarrow> l \<le> m \<Longrightarrow> log_enabled pf w m"
  by (simp add: log_enabled_def)

lemma log_enabled_error: "log_enabled pf w LevelError"
  by (cases "choose_log_level pf w") (simp_all add: log_enabled_def less_eq_log_level_def)

definition log_as_text :: "'w platform \<Rightarrow> 'w \<Rightarrow> bool" where
  "log_as_text pf w \<longleftrightarrow> ToLower (pf_ut pf) (os_Getenv (pf_os pf) w ''LOG_FORMAT'') = ''text''"

record bootenv =
  be_dbURL :: string
  be_port :: goint
  be_secretKey :: string
  be_cloneDir :: string
  be_bindAddr :: string

definition env_or :: "'w os \<Rightarrow> 'w \<Rightarrow> string \<Rightarrow> string \<Rightarrow> string" where
  "env_or os w k dflt = (if os_Getenv os w k = [] then dflt else os_Getenv os w k)"

definition env_port :: "string \<Rightarrow> goint" where
  "env_port portStr = (if portStr \<noteq> [] then (case Atoi portStr of Some v \<Rightarrow> if sint v > 0 then v else 8080 | None \<Rightarrow> 8080) else 8080)"

definition read_env :: "'w os \<Rightarrow> 'w \<Rightarrow> bootenv" where
  "read_env os w =
     \<lparr>be_dbURL = env_or os w ''DB_URL'' ''sqlite://stackd.db'', be_port = env_port (os_Getenv os w ''PORT''),
      be_secretKey = os_Getenv os w ''SECRET_KEY'', be_cloneDir = env_or os w ''CLONE_DIR'' ''/var/lib/stackd/repos'',
      be_bindAddr = env_or os w ''BIND_ADDR'' ''0.0.0.0''\<rparr>"

text \<open>\<^verbatim>\<open>net.JoinHostPort\<close>.\<close>

definition listen_addr :: "string \<Rightarrow> goint \<Rightarrow> string" where
  "listen_addr host port =
     (if CHR '':'' \<in> set host then ''['' @ host @ '']:'' @ Itoa port else host @ '':'' @ Itoa port)"

text \<open>The private directory for keys and known hosts, exported to \<^verbatim>\<open>git\<close> unless the operator chose it.\<close>

definition ssh_dir :: "'w os \<Rightarrow> string \<Rightarrow> 'w \<Rightarrow> string option \<times> 'w" where
  "ssh_dir os cloneDir w =
     (let pinned = os_Getenv os w ''SSH_KNOWN_HOSTS_DIR'' in
      if pinned \<noteq> [] then (Some pinned, w)
      else (let dir = filepath_Join cloneDir ''.ssh''; (ok, w1) = os_Setenv os ''SSH_KNOWN_HOSTS_DIR'' dir w in
            (if ok then Some dir else None, w1)))"

section \<open>Start-up\<close>

record boot =
  bt_outcomes :: open_outcomes
  bt_database :: database
  bt_hkdf :: "string \<Rightarrow> string \<Rightarrow> nat \<Rightarrow> string option"
  bt_random :: "string option"
  bt_version :: string

definition first_daemon :: "database \<Rightarrow> 'w \<Rightarrow> 'w daemon" where
  "first_daemon db w = \<lparr>world = w, ran = [], d_db = db, d_sched = new_scheduler, d_store = store_New,
     d_bus = NewActivityBus, d_metrics = no_metrics, d_holder = NewHolder None\<rparr>"

definition seed_if_asked :: "'w platform \<Rightarrow> ('w, 'z) daemon_scheme \<Rightarrow> ('w, 'z) daemon_scheme" where
  "seed_if_asked pf d =
     (if ToLower (pf_ut pf) (os_Getenv (pf_os pf) (world d) ''DEV_SEED'') = ''true''
      then let (now, d1) = time_Now (pf_os pf) d in on_store (seedDevState now) d1 else d)"

definition show_infisical :: "InfisicalConfig \<Rightarrow> InfisicalState" where
  "show_infisical icfg = \<lparr>inf_Enabled = (ic_Token icfg \<noteq> []), inf_Env = ic_Env icfg\<rparr>"

definition load_infisical_state :: "'w platform \<Rightarrow> config \<Rightarrow> ('w, 'z) daemon_scheme \<Rightarrow> ('w, 'z) daemon_scheme" where
  "load_infisical_state pf cf d =
     (let (icfg, d1) = loadInfisicalFromDB pf cf d in on_store (SetInfisical (show_infisical icfg)) d1)"

definition connect_docker :: "'w platform \<Rightarrow> ('w, 'z) daemon_scheme \<Rightarrow> ('w, 'z) daemon_scheme" where
  "connect_docker pf d = (let (c, d1) = api_call (da_New (pf_api pf)) d in d1\<lparr>d_holder := NewHolder c\<rparr>)"

text \<open>The scan at start-up syncs every enabled repository, due or not.\<close>

definition startup_scan :: "'w platform \<Rightarrow> config \<Rightarrow> ('w, 'z) daemon_scheme \<Rightarrow> ('w, 'z) daemon_scheme" where
  "startup_scan pf cf d =
     (let (listed, d1) = on_db (ListRepos (pf_dt pf)) d in
      case listed of
        Inl _ \<Rightarrow> d1
      | Inr repos \<Rightarrow>
          (let (icfg, d2) = loadInfisicalFromDB pf cf d1;
               (interval, d3) = on_db loadDefaultInterval d2 in
           refreshContainers pf
             (fold (\<lambda>repo d. if \<not> rdb_Enabled repo then d else syncRepoFromDB pf cf repo icfg interval d) repos d3)))"

definition server_New :: "'w platform \<Rightarrow> 'w daemon \<Rightarrow> 'w service" where
  "server_New pf d =
     (let window = limiter_window (os_Getenv (pf_os pf) (world d) ''SYNC_RATE_LIMIT_SECONDS'');
          (now, d1) = time_Now (pf_os pf) d in
      daemon.extend d1
        \<lparr>sv_trigger = [], sv_limiter = newRateLimiter window, sv_applying = {}, sv_jobs = [], sv_refreshes = [],
         sv_applyStack_set = False, sv_token = [], sv_startTime = now, sv_version = [], sv_cloneDir = [], sv_dbPath = []\<rparr>)"

definition start_server :: "'w platform \<Rightarrow> boot \<Rightarrow> bootenv \<Rightarrow> 'w daemon \<Rightarrow> 'w service option" where
  "start_server pf bt env d =
     (let (err, s1) = ensureDashboardToken pf (be_cloneDir env) (bt_random bt) (server_New pf d) in
      case err of
        Some _ \<Rightarrow> None
      | None \<Rightarrow> Some (SetApplyStack
          (SetSystemInfo (bt_version bt) (be_cloneDir env) (TrimPrefix (be_dbURL env) ''sqlite://'') s1)))"

definition startup :: "'w platform \<Rightarrow> boot \<Rightarrow> 'w \<Rightarrow> (config \<times> 'w service) option" where
  "startup pf bt w =
     (let env = read_env (pf_os pf) w in
      if be_secretKey env = [] then None
      else case db_Open (be_dbURL env) (bt_outcomes bt) of
        Inl _ \<Rightarrow> None
      | Inr _ \<Rightarrow>
      (case DeriveKey (bt_hkdf bt) (be_secretKey env) of
        Inl _ \<Rightarrow> None
      | Inr key \<Rightarrow>
      (let (made, w1) = os_MkdirAll (pf_os pf) (be_cloneDir env) w in
       if \<not> made then None
       else
         (let (dir, w2) = ssh_dir (pf_os pf) (be_cloneDir env) w1 in
          case dir of
            None \<Rightarrow> None
          | Some sshDir \<Rightarrow>
          (let (made', w3) = os_MkdirAll (pf_os pf) sshDir w2 in
           if \<not> made' then None
           else
             (let cf = \<lparr>cf_cloneDir = be_cloneDir env, cf_cryptoKey = key, cf_sshTempDir = sshDir\<rparr>;
                  d = startup_scan pf cf (connect_docker pf (load_infisical_state pf cf
                        (seed_if_asked pf (first_daemon (bt_database bt) w3)))) in
              map_option (Pair cf) (start_server pf bt env d)))))))"

section \<open>The loop\<close>

text \<open>One turn up to the \<^verbatim>\<open>select\<close>: what it keeps is the list of repositories and the default interval.\<close>

definition loop_head ::
    "'w platform \<Rightarrow> config \<Rightarrow> ('w, 'z) daemon_scheme \<Rightarrow> (RepoDB list \<times> duration) \<times> ('w, 'z) daemon_scheme" where
  "loop_head pf cf d =
     (let (listed, d1) = on_db (ListRepos (pf_dt pf)) d;
          repos = (case listed of Inl _ \<Rightarrow> [] | Inr rs \<Rightarrow> rs);
          (icfg, d2) = loadInfisicalFromDB pf cf d1;
          (interval, d3) = on_db loadDefaultInterval d2;
          d4 = on_store (SetInfisical (show_infisical icfg)) d3 in
      ((repos, interval), doSyncRound pf cf repos icfg interval d4))"

text \<open>\<^verbatim>\<open>drainLoop\<close>: receive until the queue is empty.\<close>

function drain :: "string list \<Rightarrow> string list \<times> string list" where
  "drain q = (case trigger_recv q of None \<Rightarrow> ([], q) | Some (r, q') \<Rightarrow> map_prod (Cons r) id (drain q'))"
  by auto
termination by (relation "measure length") (auto simp: trigger_recv_def split: list.splits)

text \<open>The wake-up by a trigger: none when the queue is empty.\<close>

definition loop_trigger :: "'w platform \<Rightarrow> config \<Rightarrow> RepoDB list \<Rightarrow> duration \<Rightarrow> 'w service \<Rightarrow> 'w service option" where
  "loop_trigger pf cf repos interval s =
     (case trigger_recv (sv_trigger s) of
        None \<Rightarrow> None
      | Some (r, q) \<Rightarrow>
          (let (extra, q') = drain q in
           Some (manual_round pf cf (r # extra) repos interval (s\<lparr>sv_trigger := q'\<rparr>))))"

lemma drain_all: "drain q = (q, [])"
  by (induction q) (subst drain.simps, simp add: trigger_recv_def)+

declare drain.simps [simp del]

text \<open>
  One wake-up takes the whole queue: draining ends, leaves the queue empty, and the round that follows
  serves every repository that was queued, in order.
\<close>

lemma loop_trigger_all:
  "loop_trigger pf cf repos i s =
     (if sv_trigger s = [] then None
      else Some (manual_round pf cf (sv_trigger s) repos i (s\<lparr>sv_trigger := []\<rparr>)))"
  by (simp add: loop_trigger_def trigger_recv_def drain_all split: list.splits)

section \<open>The token of a started server\<close>

lemma RawURLEncode_nonempty: "buf \<noteq> [] \<Longrightarrow> RawURLEncode buf \<noteq> []"
  by (cases "(url_alphabet, False, buf)" rule: b64_encode.cases) (auto simp: RawURLEncode_def enc3_def)

lemma reads_keep_tables [simp]:
  "same_tables d (snd (ListRepos dt d))" "same_tables d (snd (db_GetRepo dt i d))" "same_tables d (snd (GetRepoByName dt i d))"
  "same_tables d (snd (ListSSHKeys dt d))" "same_tables d (snd (GetSSHKey dt i d))" "same_tables d (snd (GetAllSettings d))"
  "same_tables d (snd (GetSetting k d))" "same_tables d (snd (loadDefaultInterval d))"
  by (simp_all add: same_tables_def ListRepos_def db_GetRepo_def GetRepoByName_def select_repo_def ListSSHKeys_def
      GetSSHKey_def GetAllSettings_def GetSetting_def loadDefaultInterval_def split_def Let_def split: option.splits)

lemma GetSetting_stored:
  "setting_or_empty (fst (GetSetting k d)) \<noteq> [] \<Longrightarrow>
     setting_text (db_settings d) k = Some (setting_or_empty (fst (GetSetting k d)))"
  by (rule driver_callE [of d])
    (auto simp: GetSetting_def setting_or_empty_def setting_text_def same_tables_def split: option.splits if_splits)

lemma SetSetting_result:
  "fst (SetSetting dt now k v d) = Inr () \<Longrightarrow> setting_text (db_settings (snd (SetSetting dt now k v d))) k = Some v"
  "fst (SetSetting dt now k v d) \<noteq> Inr () \<Longrightarrow> same_tables d (snd (SetSetting dt now k v d))"
  by (rule driver_callE [of d]; auto simp: SetSetting_def Let_def setting_text_upsert same_tables_def split: if_splits)+

text \<open>What start-up relies on of the file system: a written file is read back, and looking at the clock writes nothing.\<close>

definition files_read_back :: "'w os \<Rightarrow> bool" where
  "files_read_back os \<longleftrightarrow>
     (\<forall>p t w. fst (os_WriteFile os p t w) \<longrightarrow> os_ReadFile os (snd (os_WriteFile os p t w)) p = Some t)
     \<and> (\<forall>p w. os_ReadFile os (snd (os_Now os w)) p = os_ReadFile os w p)"

definition stored_token :: "('w, 'z) daemon_scheme \<Rightarrow> string option" where
  "stored_token d = setting_text (db_settings (d_db d)) ''dashboard_token''"

text \<open>The branches of \<^verbatim>\<open>ensureDashboardToken\<close>: where the token comes from, and what is left behind.\<close>

lemma ensureDashboardToken_env:
  "os_Getenv (pf_os pf) (world s) ''DASHBOARD_TOKEN'' \<noteq> [] \<Longrightarrow>
     ensureDashboardToken pf dir rnd s = (None, SetToken (os_Getenv (pf_os pf) (world s) ''DASHBOARD_TOKEN'') s)"
  by (simp add: ensureDashboardToken_def Let_def)

lemma ensureDashboardToken_stored:
  assumes "os_Getenv (pf_os pf) (world s) ''DASHBOARD_TOKEN'' = []"
    and "setting_or_empty (fst (GetSetting ''dashboard_token'' (d_db s))) \<noteq> []"
  shows "ensureDashboardToken pf dir rnd s =
    (None, SetToken (setting_or_empty (fst (GetSetting ''dashboard_token'' (d_db s)))) (snd (on_db (GetSetting ''dashboard_token'') s)))"
  using assms by (simp add: ensureDashboardToken_def on_db_def split_def Let_def)

lemma ensureDashboardToken_fresh:
  fixes s :: "'w service"
  assumes laws: "files_read_back (pf_os pf)" and rnd: "rnd \<noteq> Some []"
    and env: "os_Getenv (pf_os pf) (world s) ''DASHBOARD_TOKEN'' = []"
    and none: "setting_or_empty (fst (GetSetting ''dashboard_token'' (d_db s))) = []"
    and run: "ensureDashboardToken pf dir rnd s = (err, s')"
  shows "if err = None
    then sv_token s' \<noteq> [] \<and> os_ReadFile (pf_os pf) (world s') (dashboard_token_path dir) = Some (sv_token s' @ [newline])
      \<and> stored_token s' = Some (sv_token s')
    else sv_token s' = sv_token s \<and> same_tables (d_db s) (d_db s')"
proof -
  define s1 where "s1 = snd (on_db (GetSetting ''dashboard_token'') s)"
  have s1: "sv_token s1 = sv_token s" "same_tables (d_db s) (d_db s1)" "world s1 = world s"
    by (simp_all add: s1_def on_db_def split_def Let_def)
  show ?thesis
  proof (cases rnd)
    case None
    then show ?thesis using run env none s1
      by (auto simp: ensureDashboardToken_def on_db_def split_def Let_def)
  next
    case (Some buf)
    define p token where "p = dashboard_token_path dir" and "token = RawURLEncode buf"
    have token: "token \<noteq> []" using rnd Some by (auto simp: token_def RawURLEncode_nonempty)
    obtain ok w2 where w2: "os_WriteFile (pf_os pf) p (token @ [newline]) (world s) = (ok, w2)" by fastforce
    obtain now w3 where w3: "os_Now (pf_os pf) w2 = (now, w3)" by fastforce
    obtain d1 where d1: "snd (GetSetting ''dashboard_token'' (d_db s)) = d1" "same_tables (d_db s) d1" by simp
    obtain res d4 where d4: "SetSetting (pf_dt pf) now ''dashboard_token'' token d1 = (res, d4)" by fastforce
    have read: "ok \<Longrightarrow> os_ReadFile (pf_os pf) w3 p = Some (token @ [newline])"
      using laws w2 w3 by (auto simp: files_read_back_def) (metis fst_conv snd_conv)+
    have stored: "res = Inr () \<Longrightarrow> setting_text (db_settings d4) ''dashboard_token'' = Some token"
      "res \<noteq> Inr () \<Longrightarrow> same_tables d1 d4"
      using SetSetting_result [of "pf_dt pf" now "''dashboard_token''" token d1] d4 by auto
    have "if err = None then ok \<and> res = Inr () \<and> sv_token s' = token \<and> world s' = w3 \<and> d_db s' = d4
      else sv_token s' = sv_token s \<and> (d_db s' = d1 \<or> d_db s' = d4 \<and> res \<noteq> Inr ())"
      using run env none Some w2 w3 d1(1) d4 unfolding p_def token_def
      by (auto simp: ensureDashboardToken_def on_db_def write_file_def time_Now_def SetToken_def split_def Let_def
          split: if_splits sum.splits)
    then show ?thesis
      using read stored token d1(2) unfolding stored_token_def p_def
      by (auto simp: same_tables_def split: if_splits)
  qed
qed

section \<open>Properties\<close>


lemma demo_reads_back: "files_read_back demo_os"
  by (simp add: files_read_back_def demo_os_def)

definition fresh_service :: "(string \<times> string) list service" where
  "fresh_service = demo_service\<lparr>d_db := fresh_database [], sv_token := []\<rparr>"


text \<open>
  C39. When the database cannot be read at start-up for a moment, the operator's stored token is
  not used but replaced: a failing \<^verbatim>\<open>GetSetting\<close> is taken for a missing token, a new one is
  generated, written and stored over the old one, and start-up succeeds.
\<close>

theorem read_error_rotates_token:
  fixes s :: "'w service"
  assumes "os_Getenv (pf_os pf) (world s) ''DASHBOARD_TOKEN'' = []" and "faults (d_db s) = [True]"
    and "\<And>p t w. fst (os_WriteFile (pf_os pf) p t w)"
  shows "fst (ensureDashboardToken pf dir (Some buf) s) = None
    \<and> stored_token (snd (ensureDashboardToken pf dir (Some buf) s)) = Some (RawURLEncode buf)
    \<and> sv_token (snd (ensureDashboardToken pf dir (Some buf) s)) = RawURLEncode buf"
  using assms
  by (simp add: ensureDashboardToken_def on_db_def GetSetting_def driver_call_def setting_or_empty_def write_file_def time_Now_def
      SetSetting_def SetToken_def stored_token_def setting_text_upsert split_def Let_def)

theorem read_error_rotates_token_witness:
  "let s = fresh_service\<lparr>d_db := (fresh_database [True])\<lparr>db_settings :=
       upsert_setting ''dashboard_token'' ''kept-by-the-operator'' 1 [] (db_settings (fresh_database []))\<rparr>\<rparr> in
     stored_token s = Some ''kept-by-the-operator''
     \<and> stored_token (snd (ensureDashboardToken demo_pf ''/repos'' (Some ''abc'') s)) = Some ''YWJj''"
proof -
  let ?s = "fresh_service\<lparr>d_db := (fresh_database [True])\<lparr>db_settings :=
       upsert_setting ''dashboard_token'' ''kept-by-the-operator'' 1 [] (db_settings (fresh_database []))\<rparr>\<rparr>"
  have "os_Getenv (pf_os demo_pf) (world ?s) ''DASHBOARD_TOKEN'' = []" "RawURLEncode ''abc'' = ''YWJj''" by code_simp+
  moreover have "stored_token ?s = Some ''kept-by-the-operator''"
    by (simp add: stored_token_def setting_text_upsert)
  moreover have "faults (d_db ?s) = [True]" by (simp add: fresh_database_def)
  moreover have "fst (os_WriteFile (pf_os demo_pf) p t w)" for p t w by (simp add: demo_pf_def demo_os_def)
  ultimately show ?thesis
    using read_error_rotates_token [of demo_pf ?s "''/repos''" "''abc''"] by (simp add: Let_def)
qed

end
