(* ===== verification/Daemon.thy ===== *)
theory Daemon
  imports Startup
begin

text \<open>
  The whole program as one transition system: the turns and wake-ups of the main loop, the requests
  of the dashboard, the goroutines they start, the activity streams, and a world that other
  programs change at any moment. The invariant is the conjunction of the components' invariants;
  that each step keeps it rests on what the step does to the parts of the state, which the relation
  \<open>background\<close> sums up for everything that is not a write of the settings API.

  One step is one handler, one turn or one job as a whole. The program's own locks make the
  operations on the shared parts atomic; interleavings inside a step are the subject of
  \<open>Concurrency\<close>.
\<close>

section \<open>Background work\<close>

abbreviation bus_steps :: "ActivityBus \<Rightarrow> ActivityBus \<Rightarrow> bool" where
  "bus_steps \<equiv> bus_step\<^sup>*\<^sup>*"

definition background :: "('w, 'z) daemon_scheme \<Rightarrow> ('w, 'z) daemon_scheme \<Rightarrow> bool" where
  "background d d' \<longleftrightarrow> store_steps (d_store d) (d_store d') \<and> bus_steps (d_bus d) (d_bus d')
     \<and> same_tables (d_db d) (d_db d') \<and> (faults (d_db d) = [] \<longrightarrow> faults (d_db d') = [])
     \<and> daemon.more d' = daemon.more d"

lemma background_refl [intro, simp]: "background d d"
  by (simp add: background_def same_tables_def)

lemma background_trans [trans]: "background a b \<Longrightarrow> background b c \<Longrightarrow> background a c"
  unfolding background_def same_tables_def by (metis (no_types, lifting) rtranclp_trans)

lemma background_machine: "machine.more d' = machine.more (d :: ('w, 'z) daemon_scheme) \<Longrightarrow> background d d'"
  using more_frames [of d' d] by (simp add: background_def same_tables_def)

lemma background_publish: "background d (publish e d)"
proof -
  have "bus_steps (d_bus d) (d_bus (publish e d))"
    by (cases "Publish e (d_bus d)") (auto simp: publish_def intro: b_publish)
  then show ?thesis by (simp add: background_def frame_simps same_tables_def)
qed

lemma background_store: "store_steps (d_store d) (f (d_store d)) \<Longrightarrow> background d (on_store f d)"
  by (simp add: background_def frame_simps same_tables_def)

lemma background_parts: "background d (on_sched f d)" "background d (d\<lparr>d_sched := x\<rparr>)"
  "background d (on_metrics g d)" "background d (d\<lparr>d_holder := h\<rparr>)"
  by (simp_all add: background_def frame_simps same_tables_def)

lemma background_db:
  "same_tables (d_db d) (snd (f (d_db d))) \<Longrightarrow> (faults (d_db d) = [] \<Longrightarrow> faults (snd (f (d_db d))) = [])
     \<Longrightarrow> background d (snd (on_db f d))"
  by (simp add: background_def frame_simps)

lemma reads_keep_working [simp]:
  "faults d = [] \<Longrightarrow> faults (snd (ListRepos dt d)) = []" "faults d = [] \<Longrightarrow> faults (snd (db_GetRepo dt i d)) = []"
  "faults d = [] \<Longrightarrow> faults (snd (GetRepoByName dt n d)) = []" "faults d = [] \<Longrightarrow> faults (snd (ListSSHKeys dt d)) = []"
  "faults d = [] \<Longrightarrow> faults (snd (GetSSHKey dt i d)) = []" "faults d = [] \<Longrightarrow> faults (snd (GetAllSettings d)) = []"
  "faults d = [] \<Longrightarrow> faults (snd (GetSetting k d)) = []" "faults d = [] \<Longrightarrow> faults (snd (loadDefaultInterval d)) = []"
  by (simp_all add: driver_call_def ListRepos_def db_GetRepo_def GetRepoByName_def select_repo_def ListSSHKeys_def
      GetSSHKey_def GetAllSettings_def GetSetting_def loadDefaultInterval_def split_def Let_def split: option.split)

lemma background_reads:
  "background d (snd (on_db (ListRepos dt) d))" "background d (snd (on_db (GetRepoByName dt n) d))"
  "background d (snd (on_db (GetSSHKey dt i) d))" "background d (snd (on_db GetAllSettings d))"
  "background d (snd (on_db (GetSetting k) d))" "background d (snd (on_db loadDefaultInterval d))"
  "background d (snd (on_db (db_GetRepo dt i) d))" "background d (snd (on_db (ListSSHKeys dt) d))"
  by (intro background_db; simp)+

lemma steps_SetInfisical: "store_steps s (SetInfisical i s)"
  using s_infisical [of s i] by (rule r_into_rtranclp)

lemma background_store_ops:
  "background d (on_store (UpdateStack st) d)" "background d (on_store (UpdateRepo r) d)"
  "background d (on_store (UpdateStackContainers a b cs) d)" "background d (on_store (SetInfisical i) d)"
  "background d (on_store (mark_syncing n) d)" "background d (on_store (store_error n m) d)"
  by (intro background_store, simp add: steps_UpdateStack steps_UpdateRepo steps_containers mark_syncing_steps store_error_def
      steps_SetInfisical)+

text \<open>The leaves of every computation of the daemon, as steps at its end.\<close>

lemma background_after: "background x y \<Longrightarrow> background d x \<Longrightarrow> background d y"
  by (rule background_trans)

lemmas background_machine_calls =
  machine_more_frames [THEN background_machine] api_call_frames(2) [THEN background_machine]
  SyncRepo_more [THEN background_machine] HeadSHA_frames(1) [THEN background_machine]
  ListStackContainerDetails_frames(1) [THEN background_machine]

lemmas background_leaves = background_publish background_parts background_reads background_store_ops background_machine_calls

lemmas bg = background_refl background_leaves [THEN background_after]

section \<open>Everything the loop and the goroutines do is background work\<close>

lemma since_background: "background d (snd (since pf t d))"
  by (simp add: since_def split_def Let_def) (intro bg)

lemma applied_stack_background: "background d (snd (applied_stack pf p n r cfg res d))"
  by (rule background_machine) (rule applied_stack_frames(1))

lemma applyStack_background: "background d (applyStack pf p n r cfg d)"
  by (simp add: applyStack_def split_def Let_def) (intro conjI impI bg applied_stack_background [THEN background_after])

lemma apply_entries_background: "background d (apply_entries pf sd r cfg es d)"
  by (induction pf sd r cfg es d rule: apply_entries.induct)
    (auto simp: Let_def intro: background_trans [OF applyStack_background])

lemma runStacksSync_background: "background d (runStacksSync pf sd r cfg d)"
  by (simp add: runStacksSync_def apply_entries_background split: option.splits)

lemma background_fold: "(\<And>x d. background d (f x d)) \<Longrightarrow> background d (fold f xs d)"
  by (induction xs arbitrary: d) (auto intro: background_trans)

lemma refresh_stack_background: "background d (refresh_stack pf st d)"
  by (simp add: refresh_stack_def split_def Let_def) (intro impI bg)

lemma reconnect_background: "background d (snd (reconnect pf d))"
  by (auto simp: reconnect_def split_def Let_def split: option.splits intro!: bg)

lemma refreshContainers_background: "background d (refreshContainers pf d)"
  using background_trans [OF reconnect_background background_fold [OF refresh_stack_background]]
  by (auto simp: refreshContainers_def split_def Let_def split: option.splits intro: reconnect_background)

lemma setupGitAuth_background: "background d (snd (setupGitAuth pf cf repo d))"
  by (auto simp: setupGitAuth_def split_def Let_def split: sum.splits option.splits intro!: bg)

lemma auth_cleanup_background: "background d (auth_cleanup pf key d)"
  by (auto simp: auth_cleanup_def split: option.splits intro!: bg)

lemma gitSyncToDisk_background: "background d (snd (gitSyncToDisk pf cf repo d))"
  by (auto simp: gitSyncToDisk_def split_def Let_def split: sum.splits
      intro!: bg [THEN auth_cleanup_background [THEN background_after]] setupGitAuth_background
        auth_cleanup_background [THEN background_after] bg)

lemma recordError_background: "background d (recordError pf r si start msg d)"
  by (simp add: recordError_def split_def Let_def) (intro bg since_background [THEN background_after])

lemma recordSuccess_background: "background d (recordSuccess pf r si start sha d)"
  by (simp add: recordSuccess_def split_def Let_def) (intro bg since_background [THEN background_after])

lemma loadInfisical_background: "background d (snd (loadInfisicalFromDB pf cf d))"
  by (auto simp: loadInfisicalFromDB_def split_def Let_def split: sum.splits intro!: bg)

lemmas bg_parts = bg since_background [THEN background_after] applyStack_background [THEN background_after]
  runStacksSync_background [THEN background_after] refreshContainers_background [THEN background_after]
  gitSyncToDisk_background [THEN background_after] recordError_background [THEN background_after]
  recordSuccess_background [THEN background_after] loadInfisical_background [THEN background_after]

lemma syncRepoFromDB_background: "background d (syncRepoFromDB pf cf repo icfg i d)"
  by (auto simp: syncRepoFromDB_def split_def Let_def split: sum.splits intro!: bg_parts)

lemma sync_each_background: "background d (snd (sync_each pf cf icfg i repos d))"
proof (induction repos arbitrary: d)
  case (Cons repo repos)
  show ?case
    by (auto simp: split_def Let_def
        intro!: Cons.IH [THEN background_after] syncRepoFromDB_background [THEN background_after] bg)
qed (simp add: background_refl)

lemmas bg_rounds = bg_parts syncRepoFromDB_background [THEN background_after] sync_each_background [THEN background_after]

lemma doSyncRound_background: "background d (doSyncRound pf cf repos icfg i d)"
  by (auto simp: doSyncRound_def split_def Let_def intro!: bg_rounds)

lemma sync_triggered_background: "background d (sync_triggered pf cf q icfg i repo d)"
  by (auto simp: sync_triggered_def intro!: bg_rounds)

lemma manual_round_background: "background d (manual_round pf cf q repos i d)"
  by (simp add: manual_round_def split_def Let_def)
    (intro refreshContainers_background [THEN background_after]
      background_fold [OF sync_triggered_background, THEN background_after] loadInfisical_background)

lemma onApply_background: "background d (onApply pf cf r n d)"
  by (auto simp: onApply_def split_def Let_def split: option.splits sum.splits intro!: bg_rounds)

lemma loop_head_background: "background d (snd (loop_head pf cf d))"
  by (simp add: loop_head_def split_def Let_def)
    (intro doSyncRound_background [THEN background_after] bg_rounds)

lemma refreshContainerState_background: "background d (refreshContainerState pf n d)"
proof -
  have "background d (refresh_named pf n st d)" for st and d :: "('a, 'b) daemon_scheme"
    by (auto simp: refresh_named_def split_def Let_def split: sum.splits intro!: bg)
  then show ?thesis by (simp add: refreshContainerState_def background_refl background_fold)
qed

lemma startup_scan_background: "background d (startup_scan pf cf d)"
proof -
  have "background d (if \<not> rdb_Enabled repo then d else syncRepoFromDB pf cf repo icfg i d)" for repo icfg i and d :: "('a, 'b) daemon_scheme"
    by (simp add: syncRepoFromDB_background background_refl)
  then show ?thesis
    by (auto simp: startup_scan_def split_def Let_def split: sum.splits
        intro!: background_fold [THEN background_after] bg_rounds)
qed

section \<open>The invariant of the service\<close>

definition service_ok :: "'w platform \<Rightarrow> 'w service \<Rightarrow> bool" where
  "service_ok pf s \<longleftrightarrow> store_ok (d_store s) \<and> bus_ok (d_bus s) \<and> db_integrity (d_db s) \<and> rows_valid pf (d_db s)
     \<and> jobs_ok s \<and> sv_token s \<noteq> [] \<and> length (sv_trigger s) \<le> trigger_cap"

lemma service_ok_background: "background s t \<Longrightarrow> service_ok pf s \<Longrightarrow> service_ok pf t"
  using store_ok_steps [of "d_store s" "d_store t"] bus_machine.run_invariant [of "d_bus s" "d_bus t"]
    db_integrity_same [of "d_db s" "d_db t"] rows_valid_same [of "d_db s" "d_db t" pf]
    service_more [of t s]
  by (simp add: background_def service_ok_def jobs_ok_def)

lemma background_jobs: "background s t \<Longrightarrow> sv_jobs t = sv_jobs s"
  using service_more [of t s] by (simp add: background_def)

text \<open>Parts of the service the invariant does not speak of.\<close>

lemma service_ok_unread [simp]:
  "service_ok pf (s\<lparr>sv_limiter := l\<rparr>) = service_ok pf s" "service_ok pf (s\<lparr>sv_refreshes := r\<rparr>) = service_ok pf s"
  "service_ok pf (s\<lparr>sv_applyStack_set := b\<rparr>) = service_ok pf s"
  "service_ok pf (SetSystemInfo v c p s) = service_ok pf s" "service_ok pf (SetApplyStack s) = service_ok pf s"
  "service_ok pf (s\<lparr>world := w\<rparr>) = service_ok pf s"
  by (simp_all add: service_ok_def jobs_ok_def SetSystemInfo_def SetApplyStack_def)

lemma service_ok_token: "service_ok pf s \<Longrightarrow> t \<noteq> [] \<Longrightarrow> service_ok pf (SetToken t s)"
  by (simp add: service_ok_def jobs_ok_def SetToken_def)

lemma rl_Allow_ok: "service_ok pf s \<Longrightarrow> service_ok pf (snd (rl_Allow pf' k s))"
proof -
  assume ok: "service_ok pf s"
  have "service_ok pf (snd (limiter_store pf' k t))" if "service_ok pf t" for t
    using service_ok_background [OF background_machine_calls(2) that]
    by (auto simp: limiter_store_def split_def Let_def)
  with ok service_ok_background [OF since_background ok] show ?thesis
    by (auto simp: rl_Allow_def split_def Let_def split: option.splits)
qed

lemma handleSync_ok: "service_ok pf s \<Longrightarrow> service_ok pf (snd (handleSync pf r s))"
  using rl_Allow_ok [of pf s pf r]
  by (auto simp: handleSync_def split_def Let_def service_ok_def jobs_ok_def trigger.send_bound)

lemma handleApplyStack_ok: "service_ok pf s \<Longrightarrow> service_ok pf (snd (handleApplyStack r n s))"
  using handleApplyStack_jobs [of s r n] by (auto simp: service_ok_def handleApplyStack_def split: if_splits)

lemma engine_action_background: "background s (snd (engine_action op act name s))"
  by (rule background_machine) (simp add: engine_action_def split_def Let_def frame_simps split: option.splits)

lemma engine_actions_ok: "service_ok pf s \<Longrightarrow> service_ok pf (snd (StartContainer (pf_api pf) n s))"
  "service_ok pf s \<Longrightarrow> service_ok pf (snd (StopContainer (pf_api pf) n s))"
  "service_ok pf s \<Longrightarrow> service_ok pf (snd (RestartContainer (pf_api pf) n s))"
  unfolding StartContainer_def StopContainer_def RestartContainer_def
  by (rule service_ok_background [OF engine_action_background], assumption)+

lemma handleContainerAction_ok: "service_ok pf s \<Longrightarrow> service_ok pf (snd (handleContainerAction pf n a s))"
  by (simp add: handleContainerAction_def split_def Let_def engine_actions_ok split: sum.split)

lemma handleLogs_background: "background s (snd (handleLogs pf n s))"
  by (rule background_machine) (simp add: handleLogs_def StreamLogs_def split_def Let_def frame_simps split: option.splits)

lemma probe_shell_more [frame_simps]: "machine.more (snd (probe_shell da cid sh m)) = machine.more m"
  by (simp add: probe_shell_def split_def Let_def frame_simps split: sum.split)

lemma probe_shells_more [frame_simps]: "machine.more (snd (probe_shells da cid shells m)) = machine.more m"
  by (induction shells arbitrary: m) (simp_all add: split_def Let_def frame_simps)

lemma ExecInteractive_more [frame_simps]: "machine.more (snd (ExecInteractive da cid m)) = machine.more m"
  by (simp add: ExecInteractive_def detectShell_def split_def Let_def frame_simps split: sum.split option.split)

lemma handleExec_background: "background s (snd (handleExec pf rq h n s))"
  by (rule background_machine) (simp add: handleExec_def split_def Let_def frame_simps)

lemma bus_steps_cancel: "ch \<in> set (bus_subs b) \<Longrightarrow> bus_cancel ch b = Some b' \<Longrightarrow> bus_steps b b'"
  by (rule r_into_rtranclp, rule b_cancel)

lemma activity_background:
  "background s (snd (activity_open s))"
  "ch < length (bus_chans (d_bus s)) \<Longrightarrow> background s (snd (activity_forward enc ch s))"
  "ch \<in> set (bus_subs (d_bus s)) \<Longrightarrow> activity_close ch s = Some t \<Longrightarrow> background s t"
  by (auto simp: background_def same_tables_def activity_open_def activity_forward_def activity_close_def
      split_def Let_def intro: bus_step.intros bus_steps_cancel)

section \<open>The settings API\<close>

text \<open>What a request of the settings API leaves alone; only the update of the general settings touches the live token.\<close>

lemma settings_inner:
  "inner (snd (handleListRepos pf d)) = inner d" "inner (snd (handleGetRepo pf i d)) = inner d"
  "inner (snd (handleDeleteRepo i d)) = inner d" "inner (snd (handleListSSHKeys pf d)) = inner d"
  "inner (snd (handleDeleteSSHKey i d)) = inner d" "inner (snd (handleGetGeneralSettings d)) = inner d"
  by (simp_all add: handleListRepos_def handleGetRepo_def handleDeleteRepo_def handleListSSHKeys_def
      handleDeleteSSHKey_def handleGetGeneralSettings_def split_def Let_def frame_simps split: sum.split)

lemma settings_inner_create: "inner (snd (handleCreateRepo pf cf nonce uuid rq d)) = inner d"
  by (simp add: handleCreateRepo_def split_def Let_def frame_simps split: sum.split option.split)

lemma settings_inner_update: "inner (snd (handleUpdateRepo pf cf nonce i rq d)) = inner d"
  by (simp add: handleUpdateRepo_def split_def Let_def frame_simps split: sum.split option.split)

lemma settings_inner_key: "inner (snd (handleCreateSSHKey pf cf parse nonce uuid rq d)) = inner d"
  by (simp add: handleCreateSSHKey_def split_def Let_def frame_simps split: sum.split option.split)

lemma settings_step_cases:
  "settings_step pf cf s t \<Longrightarrow>
     inner t = inner s \<or> (\<exists>nonce rq. t = snd (handleUpdateGeneralSettings pf cf nonce rq s))"
  by (elim settings_stepE) (auto simp: settings_inner settings_inner_create settings_inner_update settings_inner_key)

lemma settings_step_inner:
  assumes "settings_step pf cf s t"
  shows "d_store t = d_store s \<and> d_bus t = d_bus s \<and> sv_trigger t = sv_trigger s \<and> sv_jobs t = sv_jobs s
    \<and> sv_applying t = sv_applying s \<and> (sv_token s \<noteq> [] \<longrightarrow> sv_token t \<noteq> [])"
  (is "?P t")
proof -
  have inner: "?P u" if "inner u = inner s" for u
    using inner_frames [OF that] service_more [of u s] by simp
  have w: "?P (snd (write_settings pf kvs s))" for kvs by (rule inner) (rule write_settings_inner)
  have "?P (snd (handleUpdateGeneralSettings pf cf nonce rq s))" for nonce rq
    using w by (simp add: handleUpdateGeneralSettings_def SetToken_def split_def Let_def split: option.split sum.split)
  with settings_step_cases [OF assms] inner show ?thesis by blast
qed

lemma integrity_reads [simp]:
  "db_integrity d \<Longrightarrow> db_integrity (snd (ListRepos dt d))" "db_integrity d \<Longrightarrow> db_integrity (snd (db_GetRepo dt i d))"
  "db_integrity d \<Longrightarrow> db_integrity (snd (ListSSHKeys dt d))" "db_integrity d \<Longrightarrow> db_integrity (snd (GetAllSettings d))"
  "db_integrity d \<Longrightarrow> db_integrity (snd (GetSetting k d))"
  by (rule db_integrity_same [OF reads_keep_tables(1)] db_integrity_same [OF reads_keep_tables(2)]
      db_integrity_same [OF reads_keep_tables(4)] db_integrity_same [OF reads_keep_tables(6)]
      db_integrity_same [OF reads_keep_tables(7)]; assumption)+

lemma write_settings_integrity: "db_integrity (d_db s) \<Longrightarrow> db_integrity (d_db (snd (write_settings pf kvs s)))"
  by (induction kvs arbitrary: s)
    (simp_all add: write_settings_Cons Let_def frame_simps integrity_SetSetting split: sum.split)

lemma integrity_create: "db_integrity (d_db s) \<Longrightarrow> db_integrity (d_db (snd (handleCreateRepo pf cf nonce uuid rq s)))"
  by (simp add: handleCreateRepo_def split_def Let_def frame_simps integrity_intros split: sum.split option.split)

lemma integrity_update: "db_integrity (d_db s) \<Longrightarrow> db_integrity (d_db (snd (handleUpdateRepo pf cf nonce i rq s)))"
  by (simp add: handleUpdateRepo_def split_def Let_def frame_simps integrity_intros split: sum.split option.split)

lemma integrity_create_key:
  "db_integrity (d_db s) \<Longrightarrow> db_integrity (d_db (snd (handleCreateSSHKey pf cf parse nonce uuid rq s)))"
  by (simp add: handleCreateSSHKey_def split_def Let_def frame_simps integrity_intros split: sum.split option.split)

lemma integrity_put_general:
  "db_integrity (d_db s) \<Longrightarrow> db_integrity (d_db (snd (handleUpdateGeneralSettings pf cf nonce rq s)))"
  by (simp add: handleUpdateGeneralSettings_def SetToken_def split_def Let_def write_settings_integrity
      split: sum.split option.split)

lemma settings_step_integrity: "settings_step pf cf s t \<Longrightarrow> db_integrity (d_db s) \<Longrightarrow> db_integrity (d_db t)"
  by (elim settings_stepE)
    (simp_all add: integrity_create integrity_update integrity_create_key integrity_put_general integrity_intros
      handleDeleteRepo_def handleListRepos_def handleGetRepo_def handleDeleteSSHKey_def handleListSSHKeys_def
      handleGetGeneralSettings_def split_def Let_def frame_simps split: sum.split)

lemma settings_step_ok: "settings_step pf cf s t \<Longrightarrow> service_ok pf s \<Longrightarrow> service_ok pf t"
  using settings_step_inner [of pf cf s t] settings_step_integrity [of pf cf s t] settings_step_valid [of pf s cf t]
  by (simp add: service_ok_def jobs_ok_def)

section \<open>Requests\<close>

lemma run_endpoint_ok:
  assumes ok: "service_ok pf s"
  shows "service_ok pf (snd (run_endpoint pf cf site inp rq ep vals s))"
proof -
  note settings = settings_step_ok [OF _ ok, of cf]
    and quiet = handleLogs_background [THEN service_ok_background, OF ok] since_background [THEN service_ok_background, OF ok]
      handleExec_background [THEN service_ok_background, OF ok] activity_background(1) [THEN service_ok_background, OF ok]
  show ?thesis
    by (cases ep)
      (auto simp: run_endpoint_def split_def Let_def wrapped_def exec_reply_def ok handleSync_ok handleApplyStack_ok
        handleContainerAction_ok handleSystemInfo_def quiet intro!: settings intro: settings_step.intros)
qed

lemma serve_ok: "service_ok pf s \<Longrightarrow> service_ok pf (snd (serve pf cf site inp rq s))"
  using run_endpoint_ok [of pf s]
  by (auto simp: serve_def securityHeaders_def authMiddleware_def route_def split_def Let_def split: option.splits)

text \<open>No request takes an apply job away: only the goroutine of the job does.\<close>

definition jobs_kept :: "'w service \<Rightarrow> 'w service \<Rightarrow> bool" where
  "jobs_kept s t \<longleftrightarrow> mset (sv_jobs s) \<subseteq># mset (sv_jobs t)"

lemma jobs_kept_refl [simp]: "jobs_kept s s"
  by (simp add: jobs_kept_def)

lemma jobs_kept_same: "sv_jobs t = sv_jobs s \<Longrightarrow> jobs_kept s t"
  by (simp add: jobs_kept_def)

lemma handler_jobs:
  fixes s :: "'w service"
  shows "jobs_kept s (snd (handleSync pf r s))" "jobs_kept s (snd (handleContainerAction pf n a s))"
  "jobs_kept s (snd (handleApplyStack r k s))"
proof -
  have limiter: "sv_jobs (snd (limiter_store pf r t)) = sv_jobs t" for t :: "'w service"
    by (simp add: background_jobs [OF background_machine_calls(2)] limiter_store_def split_def Let_def)
  then have "sv_jobs (snd (rl_Allow pf r s)) = sv_jobs s"
    by (simp add: background_jobs [OF since_background] rl_Allow_def split_def Let_def split: option.split)
  then show "jobs_kept s (snd (handleSync pf r s))"
    by (auto simp: handleSync_def split_def Let_def jobs_kept_def)
  show "jobs_kept s (snd (handleContainerAction pf n a s))"
    by (simp add: background_jobs [OF engine_action_background] handleContainerAction_def StartContainer_def StopContainer_def RestartContainer_def split_def Let_def
        jobs_kept_def split: sum.split)
  show "jobs_kept s (snd (handleApplyStack r k s))" by (simp add: handleApplyStack_def jobs_kept_def)
qed

lemma run_endpoint_jobs: "jobs_kept s (snd (run_endpoint pf cf site inp rq ep vals s))"
proof -
  have settings: "jobs_kept s t" if "settings_step pf cf s t" for t
    using settings_step_inner [OF that] by (simp add: jobs_kept_same)
  have quiet: "jobs_kept s t" if "background s t" for t
    using background_jobs [OF that] by (rule jobs_kept_same)
  note quiets = handleLogs_background [THEN quiet] since_background [THEN quiet] handleExec_background [THEN quiet]
    activity_background(1) [THEN quiet]
  show ?thesis
    by (cases ep)
      (auto simp: run_endpoint_def split_def Let_def wrapped_def exec_reply_def handler_jobs
        handleSystemInfo_def quiets intro!: settings intro: settings_step.intros)
qed

lemma serve_jobs: "jobs_kept s (snd (serve pf cf site inp rq s))"
  using run_endpoint_jobs [of s pf]
  by (auto simp: serve_def securityHeaders_def authMiddleware_def route_def split_def Let_def split: option.splits)

section \<open>Start-up\<close>

definition database_ok :: "'w platform \<Rightarrow> database \<Rightarrow> bool" where
  "database_ok pf d \<longleftrightarrow> db_integrity d \<and> rows_valid pf d"

lemma database_ok_SetSetting: "database_ok pf d \<Longrightarrow> database_ok pf (snd (SetSetting dt now k v d))"
  by (simp add: database_ok_def integrity_SetSetting rows_valid_def)

lemma ensureDashboardToken_ok:
  assumes "rnd \<noteq> Some []" "ensureDashboardToken pf dir rnd s = (None, s')" "database_ok pf (d_db s)"
  shows "sv_token s' \<noteq> [] \<and> database_ok pf (d_db s') \<and> d_store s' = d_store s \<and> d_bus s' = d_bus s
    \<and> sv_trigger s' = sv_trigger s \<and> sv_jobs s' = sv_jobs s \<and> sv_applying s' = sv_applying s"
proof -
  have g: "database_ok pf (snd (GetSetting k (d_db s)))" for k
    using assms(3) by (simp add: database_ok_def rows_valid_def)
  have "rnd = Some buf \<Longrightarrow> RawURLEncode buf \<noteq> []" for buf using assms(1) RawURLEncode_nonempty by auto
  then show ?thesis
    using assms(2,3) g by (auto simp: ensureDashboardToken_def on_db_def write_file_def time_Now_def SetToken_def split_def Let_def
        database_ok_SetSetting split: if_splits option.splits sum.splits)
qed

definition daemon_ok :: "'w platform \<Rightarrow> ('w, 'z) daemon_scheme \<Rightarrow> bool" where
  "daemon_ok pf d \<longleftrightarrow> store_ok (d_store d) \<and> bus_ok (d_bus d) \<and> database_ok pf (d_db d)"

lemma daemon_ok_background: "background s t \<Longrightarrow> daemon_ok pf s \<Longrightarrow> daemon_ok pf t"
  using store_ok_steps [of "d_store s" "d_store t"] bus_machine.run_invariant [of "d_bus s" "d_bus t"]
    db_integrity_same [of "d_db s" "d_db t"] rows_valid_same [of "d_db s" "d_db t" pf]
  by (simp add: background_def daemon_ok_def database_ok_def)

lemma first_daemon_ok: "database_ok pf db \<Longrightarrow> daemon_ok pf (first_daemon db w)"
  using store_machine.initial_invariant [of store_New] bus_machine.initial_invariant [of NewActivityBus]
  by (simp add: daemon_ok_def first_daemon_def)

lemma preparation_background:
  "background d (seed_if_asked pf d)" "background d (load_infisical_state pf cf d)" "background d (connect_docker pf d)"
proof -
  have "store_steps s (seedDevState t s)" for s t
    unfolding seedDevState_def
    by (rule rtranclp_trans [OF _ steps_SetInfisical]) (simp add: steps_UpdateStack steps_UpdateRepo)
  then show "background d (seed_if_asked pf d)"
    by (auto simp: seed_if_asked_def split_def Let_def intro!: background_store [THEN background_after] bg)
  show "background d (load_infisical_state pf cf d)" "background d (connect_docker pf d)"
    by (simp_all add: load_infisical_state_def connect_docker_def split_def Let_def, intro bg_parts)
      (intro bg)
qed

lemma server_New_fields:
  "d_store (server_New pf d) = d_store d" "d_bus (server_New pf d) = d_bus d" "d_db (server_New pf d) = d_db d"
  "sv_trigger (server_New pf d) = []" "sv_jobs (server_New pf d) = []" "sv_applying (server_New pf d) = {}"
  "rl_lastTime (sv_limiter (server_New pf d)) = []"
  by (simp_all add: newRateLimiter_def server_New_def time_Now_def split_def Let_def daemon.defs)

lemma start_server_ok:
  assumes "daemon_ok pf d" "bt_random bt \<noteq> Some []" "start_server pf bt env d = Some s"
  shows "service_ok pf s"
proof -
  obtain s1 where s1: "ensureDashboardToken pf (be_cloneDir env) (bt_random bt) (server_New pf d) = (None, s1)"
    and s: "s = SetApplyStack (SetSystemInfo (bt_version bt) (be_cloneDir env) (TrimPrefix (be_dbURL env) ''sqlite://'') s1)"
    using assms(3) by (auto simp: start_server_def split_def Let_def prod_eq_iff split: option.splits)
  have "database_ok pf (d_db (server_New pf d))" using assms(1) by (simp add: daemon_ok_def server_New_fields)
  from ensureDashboardToken_ok [OF assms(2) s1 this] have "service_ok pf s1"
    using assms(1) by (simp add: service_ok_def daemon_ok_def database_ok_def server_New_fields jobs_ok_def)
  then show ?thesis by (simp add: s)
qed

lemma startup_ok:
  assumes "database_ok pf (bt_database bt)" "bt_random bt \<noteq> Some []" "startup pf bt w = Some (cf, s)"
  shows "service_ok pf s \<and> be_secretKey (read_env (pf_os pf) w) \<noteq> []"
proof -
  obtain w3 env cf' where
    "start_server pf bt env (startup_scan pf cf' (connect_docker pf (load_infisical_state pf cf'
       (seed_if_asked pf (first_daemon (bt_database bt) w3))))) = Some s"
    and key: "be_secretKey (read_env (pf_os pf) w) \<noteq> []"
    using assms(3) by (auto simp: startup_def split_def Let_def split: if_splits option.splits sum.splits)
  then show ?thesis
    using start_server_ok [OF _ assms(2)] daemon_ok_background first_daemon_ok [OF assms(1)]
      startup_scan_background preparation_background
    by (metis (no_types, lifting))
qed

section \<open>The machine\<close>

text \<open>
  Where the main goroutine is: about to begin a turn, waiting in the \<^verbatim>\<open>select\<close> with the repositories and
  the default interval of the turn, or returned. Everything else runs at any moment: a request, a
  goroutine that finishes its job, a subscriber that takes an event or leaves, and other programs,
  which change the world.
\<close>

datatype loop_phase = Turn | Waiting "RepoDB list" duration | Ended

type_synonym 'w running = "'w service \<times> loop_phase"

inductive daemon_step :: "'w platform \<Rightarrow> config \<Rightarrow> 'w running \<Rightarrow> 'w running \<Rightarrow> bool"
  for pf :: "'w platform" and cf :: config where
  turn: "loop_head pf cf s = ((repos, i), t) \<Longrightarrow> daemon_step pf cf (s, Turn) (t, Waiting repos i)"
| tick: "daemon_step pf cf (s, Waiting repos i) (s, Turn)"
| trigger: "loop_trigger pf cf repos i s = Some t \<Longrightarrow> daemon_step pf cf (s, Waiting repos i) (t, Turn)"
| stop: "pf_ctx_done pf (world s) \<Longrightarrow> daemon_step pf cf (s, Waiting repos i) (s, Ended)"
| request: "ph \<noteq> Ended \<Longrightarrow> daemon_step pf cf (s, ph) (snd (serve pf cf site inp rq s), ph)"
| applied: "ph \<noteq> Ended \<Longrightarrow> job \<in> set (sv_jobs s) \<Longrightarrow> daemon_step pf cf (s, ph) (apply_job pf cf job s, ph)"
| refreshed: "ph \<noteq> Ended \<Longrightarrow> n \<in> set (sv_refreshes s) \<Longrightarrow> daemon_step pf cf (s, ph) (refresh_job pf n s, ph)"
| streamed: "ph \<noteq> Ended \<Longrightarrow> ch \<in> set (bus_subs (d_bus s)) \<Longrightarrow> daemon_step pf cf (s, ph) (snd (activity_forward enc ch s), ph)"
| left: "ph \<noteq> Ended \<Longrightarrow> ch \<in> set (bus_subs (d_bus s)) \<Longrightarrow> activity_close ch s = Some t \<Longrightarrow> daemon_step pf cf (s, ph) (t, ph)"
| elsewhere: "ph \<noteq> Ended \<Longrightarrow> daemon_step pf cf (s, ph) (s\<lparr>world := w\<rparr>, ph)"

inductive_cases daemon_stepE: "daemon_step pf cf (s, ph) y"

text \<open>A daemon that \<^verbatim>\<open>main\<close> has started on a database the API could have written.\<close>

definition started :: "'w platform \<Rightarrow> config \<Rightarrow> 'w running \<Rightarrow> bool" where
  "started pf cf x \<longleftrightarrow> snd x = Turn \<and>
     (\<exists>bt w. database_ok pf (bt_database bt) \<and> bt_random bt \<noteq> Some [] \<and> startup pf bt w = Some (cf, fst x))"

fun phase_ok :: "'w platform \<Rightarrow> loop_phase \<Rightarrow> bool" where
  "phase_ok pf (Waiting repos i) = (list_all (merge_ok pf) repos \<and> distinct (map rdb_Name repos))"
| "phase_ok pf ph = True"

definition running_ok :: "'w platform \<Rightarrow> 'w running \<Rightarrow> bool" where
  "running_ok pf x \<longleftrightarrow> service_ok pf (fst x) \<and> phase_ok pf (snd x)"

lemma ListRepos_ok:
  assumes "fst (ListRepos dt d) = Inr repos" "db_integrity d" "rows_valid pf d"
  shows "list_all (merge_ok pf) repos \<and> distinct (map rdb_Name repos)"
proof -
  have r: "repos = map (scanRepo dt) (by_name row_name (db_repos d))"
    using assms(1) driver_call_tables(1) [of d] by (auto simp: ListRepos_def split_def Let_def split: if_splits)
  have m: "mset (map row_name (by_name row_name (db_repos d))) = mset (map row_name (db_repos d))"
    by (simp add: by_name_def)
  have "distinct (map row_name (by_name row_name (db_repos d)))"
    using mset_eq_imp_distinct_iff [OF m] assms(2) by (simp add: db_integrity_def repos_ok_def)
  moreover have "rdb_Name (scanRepo dt r) = row_name r" for r by (simp add: scanRepo_def)
  ultimately show ?thesis
    using assms(3) unfolding r by (auto simp: list_all_iff rows_valid_def merge_ok_scan by_name_def comp_def)
qed

lemma loop_head_phase: "service_ok pf s \<Longrightarrow> loop_head pf cf s = ((repos, i), t) \<Longrightarrow> phase_ok pf (Waiting repos i)"
  using ListRepos_ok [of "pf_dt pf" "d_db s" _ pf]
  by (auto simp: loop_head_def split_def Let_def service_ok_def frame_simps split: sum.splits)

lemma loop_head_ok: "service_ok pf s \<Longrightarrow> loop_head pf cf s = (x, t) \<Longrightarrow> service_ok pf t"
  using service_ok_background [OF loop_head_background [of s pf cf]] by simp

lemma job_done_ok: "service_ok pf s \<Longrightarrow> job \<in> set (sv_jobs s) \<Longrightarrow> service_ok pf (job_done job s)"
  using job_done_jobs [of s job] by (simp add: service_ok_def job_done_def)

lemma apply_job_ok: "service_ok pf s \<Longrightarrow> job \<in> set (sv_jobs s) \<Longrightarrow> service_ok pf (apply_job pf cf job s)"
  unfolding apply_job_def
  by (rule job_done_ok [OF service_ok_background [OF onApply_background]])
    (simp_all add: background_jobs [OF onApply_background])

lemma refresh_job_ok: "service_ok pf s \<Longrightarrow> service_ok pf (refresh_job pf n s)"
  using service_ok_background [OF refreshContainerState_background, of pf s pf n] by (simp add: refresh_job_def Let_def)

lemma loop_trigger_ok: "service_ok pf s \<Longrightarrow> loop_trigger pf cf repos i s = Some t \<Longrightarrow> service_ok pf t"
proof -
  assume ok: "service_ok pf s" and t: "loop_trigger pf cf repos i s = Some t"
  have "service_ok pf (s\<lparr>sv_trigger := []\<rparr>)" using ok by (simp add: service_ok_def jobs_ok_def)
  then have "service_ok pf (manual_round pf cf (sv_trigger s) repos i (s\<lparr>sv_trigger := []\<rparr>))"
    by (rule service_ok_background [OF manual_round_background])
  then show ?thesis using t by (auto simp: loop_trigger_all split: if_splits)
qed

lemma daemon_step_ok:
  assumes "running_ok pf x" "daemon_step pf cf x y"
  shows "running_ok pf y"
proof -
  obtain s ph where x: "x = (s, ph)" by fastforce
  have ok: "service_ok pf s" and ph: "phase_ok pf ph" using assms(1) by (simp_all add: running_ok_def x)
  have bus: "ch < length (bus_chans (d_bus s))" if "ch \<in> set (bus_subs (d_bus s))" for ch
    using ok that by (simp add: service_ok_def bus_ok_def)
  show ?thesis using assms(2) unfolding x
    by (elim daemon_stepE)
      (auto simp: running_ok_def ok ph serve_ok apply_job_ok refresh_job_ok
        intro: loop_trigger_ok [OF ok] loop_head_ok [OF ok]
          service_ok_background [OF activity_background(2) [OF bus] ok] service_ok_background [OF activity_background(3) ok]
        dest: loop_head_phase [OF ok])
qed

interpretation daemon_machine: transition_system "started pf cf" "daemon_step pf cf" "running_ok pf" for pf cf
proof unfold_locales
  fix x assume "started pf cf x"
  then have "service_ok pf (fst x)" "snd x = Turn" using startup_ok [of pf _ _ cf "fst x"] by (auto simp: started_def)
  then show "running_ok pf x" by (simp add: running_ok_def)
qed (rule daemon_step_ok)

section \<open>Properties\<close>

text \<open>
  C2. The invariants of all the components hold together in every state the program reaches, whatever
  the requests, the order in which goroutines finish, the turns of the loop and what other programs
  do to the machine: the tables keep unique ids and names and only valid rows, the state store and
  the activity bus are consistent, no stack is applied twice at once, the trigger queue is within
  its capacity, and there is always a dashboard token.
\<close>

theorem daemon_invariant:
  assumes "reach (started pf cf) (daemon_step pf cf) (s, ph)"
  shows "db_integrity (d_db s) \<and> rows_valid pf (d_db s) \<and> store_ok (d_store s) \<and> bus_ok (d_bus s) \<and> jobs_ok s
    \<and> length (sv_trigger s) \<le> 16 \<and> sv_token s \<noteq> []"
  using daemon_machine.reach_invariant [OF assms] by (simp add: running_ok_def service_ok_def trigger_cap_def)


text \<open>A concrete start: the secret key and the token come from the environment, one repository is configured.\<close>

definition boot_pf :: "(string \<times> string) list platform" where
  "boot_pf = demo_pf\<lparr>pf_os := demo_os\<lparr>os_Getenv := (\<lambda>w k.
     if k = ''SECRET_KEY'' then ''correct horse battery'' else if k = ''DASHBOARD_TOKEN'' then ''tok'' else [])\<rparr>\<rparr>"

definition demo_boot :: boot where
  "demo_boot = \<lparr>bt_outcomes = \<lparr>sql_Open_ok = True, wal_ok = True, ping_ok = True, iofs_ok = True, migrate_new_ok = True,
       up_first = Up_ok, force_ok = True, up_retry = Up_ok\<rparr>,
     bt_database = snd (CreateRepo demo_dt (Some (replicate 16 7)) 5 demo_repo (fresh_database [])),
     bt_hkdf = (\<lambda>secret info n. Some (replicate n (CHR ''k''))), bt_random = Some ''abc'', bt_version = ''1.0''\<rparr>"

definition boot_cf :: config where
  "boot_cf = \<lparr>cf_cloneDir = ''/var/lib/stackd/repos'', cf_cryptoKey = replicate 32 (CHR ''k''),
     cf_sshTempDir = ''/var/lib/stackd/repos/.ssh''\<rparr>"

lemma demo_database:
  "database_ok boot_pf (bt_database demo_boot)" "faults (bt_database demo_boot) = []"
  "map row_name (db_repos (bt_database demo_boot)) = [''dockers'']"
proof -
  have "rows_valid boot_pf (bt_database demo_boot)" by code_simp
  then show "database_ok boot_pf (bt_database demo_boot)"
    by (simp add: database_ok_def demo_boot_def integrity_CreateRepo integrity_fresh)
  show "faults (bt_database demo_boot) = []" "map row_name (db_repos (bt_database demo_boot)) = [''dockers'']"
    by code_simp+
qed

lemma boot_env: "os_Getenv (pf_os boot_pf) w k =
    (if k = ''SECRET_KEY'' then ''correct horse battery'' else if k = ''DASHBOARD_TOKEN'' then ''tok'' else [])"
  by (simp add: boot_pf_def)

lemma demo_startup:
  obtains s where "startup boot_pf demo_boot [] = Some (boot_cf, s)" "db_repos (d_db s) = db_repos (bt_database demo_boot)"
    "faults (d_db s) = []" "sv_token s = ''tok''" "sv_trigger s = []" "rl_lastTime (sv_limiter s) = []"
proof -
  have env: "read_env (pf_os boot_pf) [] = \<lparr>be_dbURL = ''sqlite://stackd.db'', be_port = 8080,
      be_secretKey = ''correct horse battery'', be_cloneDir = ''/var/lib/stackd/repos'', be_bindAddr = ''0.0.0.0''\<rparr>"
    by (simp add: read_env_def env_or_def boot_env env_port_def)
  have opened: "\<exists>x. db_Open ''sqlite://stackd.db'' (bt_outcomes demo_boot) = Inr x"
  proof -
    have "case db_Open ''sqlite://stackd.db'' (bt_outcomes demo_boot) of Inl _ \<Rightarrow> False | Inr _ \<Rightarrow> True" by code_simp
    then show ?thesis by (auto split: sum.splits)
  qed
  have made: "os_MkdirAll (pf_os boot_pf) p w = (True, w)" "os_Setenv (pf_os boot_pf) k v w = (True, w)" for p k v w
    by (simp_all add: boot_pf_def demo_os_def)
  have ssh: "filepath_Join ''/var/lib/stackd/repos'' ''.ssh'' = ''/var/lib/stackd/repos/.ssh''" by code_simp
  let ?d = "startup_scan boot_pf boot_cf (connect_docker boot_pf (load_infisical_state boot_pf boot_cf
      (seed_if_asked boot_pf (first_daemon (bt_database demo_boot) []))))"
  let ?s = "SetApplyStack (SetSystemInfo ''1.0'' ''/var/lib/stackd/repos'' (TrimPrefix ''sqlite://stackd.db'' ''sqlite://'')
      (SetToken ''tok'' (server_New boot_pf ?d)))"
  have "startup boot_pf demo_boot [] = Some (boot_cf, ?s)"
    using opened ensureDashboardToken_env [of boot_pf "server_New boot_pf ?d" "''/var/lib/stackd/repos''" "Some ''abc''"]
    by (auto simp: startup_def env start_server_def DeriveKey_def ssh_dir_def made ssh boot_env boot_cf_def Let_def demo_boot_def
        simp del: TrimPrefix_def)
  moreover have "background (first_daemon (bt_database demo_boot) []) ?d"
    by (intro startup_scan_background [THEN background_after] preparation_background [THEN background_after] background_refl)
  ultimately show ?thesis
    using that [of ?s] demo_database(2)
    by (simp add: background_def same_tables_def server_New_fields first_daemon_def SetApplyStack_def SetSystemInfo_def SetToken_def)
qed

lemma demo_turn:
  assumes "database_ok boot_pf (d_db s)" "db_repos (d_db s) = db_repos (bt_database demo_boot)" "faults (d_db s) = []"
  obtains repos i t where "loop_head boot_pf boot_cf s = ((repos, i), t)" "map rdb_Name repos = [''dockers'']" "background s t"
proof -
  let ?rows = "db_repos (bt_database demo_boot)"
  have sorted: "map row_name (by_name row_name ?rows) = [''dockers'']"
    using demo_database(3) by (cases ?rows) (auto simp: by_name_def)
  let ?repos = "map (scanRepo (pf_dt boot_pf)) (by_name row_name ?rows)"
  have "fst (ListRepos (pf_dt boot_pf) (d_db s)) = Inr ?repos"
    using assms(2,3) by (simp add: ListRepos_def driver_call_def split_def Let_def)
  then have "fst (fst (loop_head boot_pf boot_cf s)) = ?repos"
    by (simp add: loop_head_def split_def Let_def frame_simps)
  then obtain i t where t: "loop_head boot_pf boot_cf s = ((?repos, i), t)"
    by (cases "loop_head boot_pf boot_cf s") (auto simp: prod_eq_iff)
  have "map rdb_Name ?repos = [''dockers'']" using sorted by (simp add: scanRepo_def comp_def)
  moreover have "background s t" using loop_head_background [of s boot_pf boot_cf] by (simp add: t)
  ultimately show ?thesis by (rule that [OF t])
qed

text \<open>The start, one request for a manual sync, and the first turn.\<close>

lemma demo_run:
  obtains s repos i where "reach (started boot_pf boot_cf) (daemon_step boot_pf boot_cf) (s, Waiting repos i)"
    "sv_trigger s = [''dockers'']" "map rdb_Name repos = [''dockers'']"
proof -
  let ?rq = "demo_request ''POST'' [''api'', ''sync'', ''dockers''] ''Bearer tok''"
  obtain s0 where s0: "startup boot_pf demo_boot [] = Some (boot_cf, s0)" "db_repos (d_db s0) = db_repos (bt_database demo_boot)"
    "faults (d_db s0) = []" "sv_token s0 = ''tok''" "sv_trigger s0 = []" "rl_lastTime (sv_limiter s0) = []"
    by (rule demo_startup)
  have "bt_random demo_boot \<noteq> Some []" by (simp add: demo_boot_def)
  then have "started boot_pf boot_cf (s0, Turn)" using demo_database(1) s0(1) unfolding started_def by auto
  then have r0: "reach (started boot_pf boot_cf) (daemon_step boot_pf boot_cf) (s0, Turn)" by (rule reach_init)
  define s1 where "s1 = snd (serve boot_pf boot_cf demo_site no_inputs ?rq s0)"
  have r1: "reach (started boot_pf boot_cf) (daemon_step boot_pf boot_cf) (s1, Turn)"
    unfolding s1_def by (rule reach_step [OF r0 request]) simp
  have m: "mux_match (rq_Method ?rq) (rq_Segs ?rq) = Some (Sync, [''dockers''])" by code_simp
  have auth: "\<not> open_path (rq_Path ?rq)" "token_accepted ''tok'' ?rq" by code_simp+
  have "rq_Canonical ?rq" "rq_Segs ?rq \<noteq> [''assets'']" by (simp_all add: demo_request_def)
  then have "s1 = snd (handleSync boot_pf ''dockers'' s0)"
    using m auth s0(4) by (simp add: s1_def serve_def securityHeaders_def authMiddleware_def route_def run_endpoint_def
        wrapped_def split_def Let_def)
  then have s1: "sv_trigger s1 = [''dockers'']" "d_db s1 = d_db s0"
    using s0(5,6) by (simp_all add: handleSync_def rl_Allow_def limiter_store_def time_Now_def trigger_sent_def
        trigger_send_def trigger_cap_def split_def Let_def)
  have "database_ok boot_pf (d_db s1)"
    using daemon_machine.reach_invariant [OF r1] by (simp add: running_ok_def service_ok_def database_ok_def)
  then obtain repos i t where t: "loop_head boot_pf boot_cf s1 = ((repos, i), t)" "map rdb_Name repos = [''dockers'']"
    "background s1 t" using s0(2,3) s1(2) by (auto intro: demo_turn [of s1])
  have "sv_trigger t = [''dockers'']" using t(3) s1(1) service_more(1) [of t s1] by (simp add: background_def)
  moreover have "reach (started boot_pf boot_cf) (daemon_step boot_pf boot_cf) (t, Waiting repos i)"
    by (rule reach_step [OF r1 turn [OF t(1)]])
  ultimately show ?thesis by (rule that [OF _ _ t(2), rotated])
qed

theorem daemon_invariant_witness:
  "\<exists>s. startup boot_pf demo_boot [] = Some (boot_cf, s) \<and> db_integrity (d_db s) \<and> rows_valid boot_pf (d_db s)
     \<and> store_ok (d_store s) \<and> sv_token s = ''tok''"
proof -
  obtain s where s: "startup boot_pf demo_boot [] = Some (boot_cf, s)" "sv_token s = ''tok''" by (rule demo_startup)
  have "bt_random demo_boot \<noteq> Some []" by (simp add: demo_boot_def)
  then have "started boot_pf boot_cf (s, Turn)" using demo_database(1) s(1) unfolding started_def by auto
  then have "reach (started boot_pf boot_cf) (daemon_step boot_pf boot_cf) (s, Turn)" by (rule reach_init)
  from daemon_invariant [OF this] s show ?thesis by blast
qed


end
