(* ===== verification/Locks.thy ===== *)
theory Locks
  imports Prelude
begin

text \<open>
  The per-repository mutexes of \<^verbatim>\<open>src/main.go\<close>: the table \<^verbatim>\<open>repoLocks\<close>, the operations on it, the protocol
  every goroutine follows with it, and what that protocol maintains: one mutex per name, locked
  exactly while one goroutine has it.
\<close>

section \<open>The lock table\<close>

text \<open>
  \<^verbatim>\<open>repoLocks\<close> maps a name to its mutex, which stays for good once it is stored; a mutex is an index
  into the list of their states.
\<close>

record lock_table =
  lt_ids :: "(string, nat) gomap"
  lt_locked :: "bool list"

definition repoLock :: "string \<Rightarrow> lock_table \<Rightarrow> nat \<times> lock_table" where
  "repoLock repoName lt =
     (case mget (lt_ids lt) repoName of
        Some m \<Rightarrow> (m, lt)
      | None \<Rightarrow>
          (let m = length (lt_locked lt) in
           (m, lt\<lparr>lt_ids := mput repoName m (lt_ids lt), lt_locked := lt_locked lt @ [False]\<rparr>)))"

definition mutex_Lock :: "nat \<Rightarrow> lock_table \<Rightarrow> lock_table option" where
  "mutex_Lock m lt = (if lt_locked lt ! m then None else Some (lt\<lparr>lt_locked := (lt_locked lt)[m := True]\<rparr>))"

definition mutex_Unlock :: "nat \<Rightarrow> lock_table \<Rightarrow> lock_table" where
  "mutex_Unlock m lt = lt\<lparr>lt_locked := (lt_locked lt)[m := False]\<rparr>"

definition no_locks :: lock_table where
  "no_locks = \<lparr>lt_ids = [], lt_locked = []\<rparr>"

section \<open>The lock protocol\<close>

text \<open>What a goroutine has to do with locks, and the four things it can do to the table: look a mutex up, take it, give it back, nothing.\<close>

datatype lock_use = No_lock | Wants string nat | Has string nat

inductive lock_step :: "lock_table \<times> lock_use \<Rightarrow> lock_table \<times> lock_use \<Rightarrow> bool" where
  l_stay: "lock_step (lt, u) (lt, u)"
| l_lookup: "repoLock r lt = (m, lt') \<Longrightarrow> lock_step (lt, No_lock) (lt', Wants r m)"
| l_acquire: "mutex_Lock m lt = Some lt' \<Longrightarrow> lock_step (lt, Wants r m) (lt', Has r m)"
| l_release: "lock_step (lt, Has r m) (mutex_Unlock m lt, No_lock)"

inductive_cases lock_stepE: "lock_step (lt, u) (lt', u')"

text \<open>Each name has one mutex of its own; it is locked exactly while one goroutine has it.\<close>

definition locks_ok :: "lock_table \<Rightarrow> lock_use multiset \<Rightarrow> bool" where
  "locks_ok lt us \<longleftrightarrow>
     (\<forall>r m. mget (lt_ids lt) r = Some m \<longrightarrow> m < length (lt_locked lt))
     \<and> (\<forall>r r' m. mget (lt_ids lt) r = Some m \<longrightarrow> mget (lt_ids lt) r' = Some m \<longrightarrow> r = r')
     \<and> (\<forall>r m. Wants r m \<in># us \<longrightarrow> mget (lt_ids lt) r = Some m)
     \<and> (\<forall>r m. Has r m \<in># us \<longrightarrow> mget (lt_ids lt) r = Some m)
     \<and> (\<forall>m < length (lt_locked lt). lt_locked lt ! m = (\<exists>r. Has r m \<in># us))
     \<and> (\<forall>r m. count us (Has r m) \<le> 1)"

lemma locks_okI:
  assumes "\<And>r m. mget (lt_ids lt) r = Some m \<Longrightarrow> m < length (lt_locked lt)"
    "\<And>r r' m. mget (lt_ids lt) r = Some m \<Longrightarrow> mget (lt_ids lt) r' = Some m \<Longrightarrow> r = r'"
    "\<And>r m. Wants r m \<in># us \<Longrightarrow> mget (lt_ids lt) r = Some m" "\<And>r m. Has r m \<in># us \<Longrightarrow> mget (lt_ids lt) r = Some m"
    "\<And>m. m < length (lt_locked lt) \<Longrightarrow> lt_locked lt ! m = (\<exists>r. Has r m \<in># us)" "\<And>r m. count us (Has r m) \<le> 1"
  shows "locks_ok lt us"
  using assms unfolding locks_ok_def by blast

lemma locks_okD:
  assumes "locks_ok lt us"
  shows "mget (lt_ids lt) r = Some m \<Longrightarrow> m < length (lt_locked lt)"
    "mget (lt_ids lt) r = Some m \<Longrightarrow> mget (lt_ids lt) r' = Some m \<Longrightarrow> r = r'"
    "Wants r m \<in># us \<Longrightarrow> mget (lt_ids lt) r = Some m" "Has r m \<in># us \<Longrightarrow> mget (lt_ids lt) r = Some m"
    "m < length (lt_locked lt) \<Longrightarrow> lt_locked lt ! m = (\<exists>r. Has r m \<in># us)" "count us (Has r m) \<le> 1"
  using assms unfolding locks_ok_def by blast+

lemma locks_ok_lookup:
  assumes ok: "locks_ok lt (add_mset No_lock us)" and l: "repoLock r lt = (m, lt')"
  shows "locks_ok lt' (add_mset (Wants r m) us)"
proof (cases "mget (lt_ids lt) r")
  case (Some n)
  then have "lt' = lt" "m = n" using l by (simp_all add: repoLock_def)
  then show ?thesis using Some locks_okD [OF ok] by (intro locks_okI) auto
next
  case None
  then have m: "m = length (lt_locked lt)" and l': "lt_ids lt' = mput r m (lt_ids lt)" "lt_locked lt' = lt_locked lt @ [False]"
    using l by (auto simp: repoLock_def Let_def)
  have old: "n < m" if "mget (lt_ids lt) q = Some n" for q n using locks_okD(1) [OF ok that] m by simp
  have fresh: "Has q m \<notin># us" for q using locks_okD(4) [OF ok, of q m] old by auto
  show ?thesis
  proof (rule locks_okI)
    fix q n assume "mget (lt_ids lt') q = Some n"
    then show "n < length (lt_locked lt')" using old [of q n] m by (auto simp: l' split: if_splits)
  next
    fix q q' n assume "mget (lt_ids lt') q = Some n" "mget (lt_ids lt') q' = Some n"
    then show "q = q'" using old [of q n] old [of q' n] locks_okD(2) [OF ok, of q n q'] by (auto simp: l' split: if_splits)
  next
    fix n assume "n < length (lt_locked lt')"
    then show "lt_locked lt' ! n = (\<exists>q. Has q n \<in># add_mset (Wants r m) us)"
      using locks_okD(5) [OF ok, of n] fresh m by (auto simp: l' nth_append less_Suc_eq)
  qed (use None locks_okD(3,4,6) [OF ok] in \<open>auto simp: l'\<close>)
qed

lemma locks_ok_acquire:
  assumes ok: "locks_ok lt (add_mset (Wants r m) us)" and l: "mutex_Lock m lt = Some lt'"
  shows "locks_ok lt' (add_mset (Has r m) us)"
proof -
  have free: "\<not> lt_locked lt ! m" and l': "lt_ids lt' = lt_ids lt" "lt_locked lt' = (lt_locked lt)[m := True]"
    using l by (auto simp: mutex_Lock_def split: if_splits)
  have m: "mget (lt_ids lt) r = Some m" using locks_okD(3) [OF ok] by simp
  have none: "Has q m \<notin># us" for q using locks_okD(5) [OF ok locks_okD(1) [OF ok m]] free by auto
  show ?thesis
  proof (rule locks_okI)
    fix n assume "n < length (lt_locked lt')"
    then show "lt_locked lt' ! n = (\<exists>q. Has q n \<in># add_mset (Has r m) us)"
      using locks_okD(5) [OF ok, of n] locks_okD(1) [OF ok m] by (auto simp: l' nth_list_update)
  next
    fix q n show "count (add_mset (Has r m) us) (Has q n) \<le> 1"
      using locks_okD(6) [OF ok, of q n] none [of r] by (auto simp: not_in_iff)
  next
    fix q n assume "mget (lt_ids lt') q = Some n"
    then show "n < length (lt_locked lt')" using locks_okD(1) [OF ok, of q n] by (simp add: l')
  next
    fix q q' n assume "mget (lt_ids lt') q = Some n" "mget (lt_ids lt') q' = Some n"
    then show "q = q'" using locks_okD(2) [OF ok, of q n q'] by (simp add: l')
  next
    fix q n assume "Wants q n \<in># add_mset (Has r m) us"
    then show "mget (lt_ids lt') q = Some n" using locks_okD(3) [OF ok, of q n] by (simp add: l')
  next
    fix q n assume "Has q n \<in># add_mset (Has r m) us"
    then show "mget (lt_ids lt') q = Some n" using locks_okD(4) [OF ok, of q n] m by (auto simp: l')
  qed
qed

lemma locks_ok_release:
  assumes ok: "locks_ok lt (add_mset (Has r m) us)"
  shows "locks_ok (mutex_Unlock m lt) (add_mset No_lock us)"
proof -
  have m: "mget (lt_ids lt) r = Some m" using locks_okD(4) [OF ok] by simp
  have none: "Has q m \<notin># us" for q
  proof
    assume h: "Has q m \<in># us"
    then have "q = r" using locks_okD(4) [OF ok, of q m] locks_okD(2) [OF ok _ m] by auto
    then show False using h locks_okD(6) [OF ok, of r m] by (simp add: not_in_iff [symmetric])
  qed
  show ?thesis
  proof (rule locks_okI)
    fix n assume "n < length (lt_locked (mutex_Unlock m lt))"
    then show "lt_locked (mutex_Unlock m lt) ! n = (\<exists>q. Has q n \<in># add_mset No_lock us)"
      using locks_okD(5) [OF ok, of n] locks_okD(1) [OF ok m] none by (auto simp: mutex_Unlock_def nth_list_update)
  next
    fix q n show "count (add_mset No_lock us) (Has q n) \<le> 1"
      using locks_okD(6) [OF ok, of q n] by (simp split: if_splits)
  next
    fix q n assume "mget (lt_ids (mutex_Unlock m lt)) q = Some n"
    then show "n < length (lt_locked (mutex_Unlock m lt))" using locks_okD(1) [OF ok, of q n] by (simp add: mutex_Unlock_def)
  next
    fix q q' n assume "mget (lt_ids (mutex_Unlock m lt)) q = Some n" "mget (lt_ids (mutex_Unlock m lt)) q' = Some n"
    then show "q = q'" using locks_okD(2) [OF ok, of q n q'] by (simp add: mutex_Unlock_def)
  next
    fix q n assume "Wants q n \<in># add_mset No_lock us"
    then show "mget (lt_ids (mutex_Unlock m lt)) q = Some n" using locks_okD(3) [OF ok, of q n] by (simp add: mutex_Unlock_def)
  next
    fix q n assume "Has q n \<in># add_mset No_lock us"
    then show "mget (lt_ids (mutex_Unlock m lt)) q = Some n" using locks_okD(4) [OF ok, of q n] by (auto simp: mutex_Unlock_def)
  qed
qed

lemma lock_step_ok:
  "locks_ok lt (add_mset u us) \<Longrightarrow> lock_step (lt, u) (lt', u') \<Longrightarrow> locks_ok lt' (add_mset u' us)"
  by (elim lock_stepE) (auto intro: locks_ok_lookup locks_ok_acquire locks_ok_release)

section \<open>Free locks\<close>

text \<open>Nobody has the mutex of the repository, which may not exist yet.\<close>

definition lock_free :: "string \<Rightarrow> lock_table \<Rightarrow> bool" where
  "lock_free r lt = (case mget (lt_ids lt) r of None \<Rightarrow> True | Some m \<Rightarrow> m < length (lt_locked lt) \<and> \<not> lt_locked lt ! m)"

text \<open>A free lock can be taken and given back, which leaves it free, and so every other free lock.\<close>

lemma repoLock_free:
  assumes "lock_free r lt" "repoLock r lt = (m, lt')"
  shows "\<exists>lt2. mutex_Lock m lt' = Some lt2 \<and> (\<forall>q. q = r \<or> lock_free q lt \<longrightarrow> lock_free q (mutex_Unlock m lt2))
    \<and> repoLock r (mutex_Unlock m lt2) = (m, mutex_Unlock m lt2)"
  using assms
  by (auto simp: lock_free_def repoLock_def mutex_Lock_def mutex_Unlock_def Let_def nth_append nth_list_update
      split: option.splits if_splits)

end
