(* ===== verification/Goroutines.thy ===== *)
theory Goroutines
  imports Daemon Locks
begin

text \<open>
  A sync of the main loop and an apply callback, cut into the pieces between which other goroutines
  run (\<^verbatim>\<open>syncRepoFromDB\<close> and the function given to \<^verbatim>\<open>SetApplyStack\<close> in \<^verbatim>\<open>src/main.go\<close>, started by
  \<^verbatim>\<open>handleApplyStack\<close>). A thread is the point where it stands with the values it carries on;
  \<open>thread_step\<close> runs its next piece on the shared service and the table of locks, or is \<open>None\<close> when the
  thread waits for a mutex.

  A piece runs as a whole: it is one operation on a store with a mutex of its own, one stack, or the
  git work of one repository, which the lock of the repository protects.
\<close>

section \<open>Threads\<close>

record 'w shared =
  sh_svc :: "'w service"
  sh_locks :: lock_table

datatype thread =
    Sync_begin RepoDB InfisicalConfig duration
  | Sync_lock RepoDB InfisicalConfig duration gotime nat
  | Sync_pull RepoDB InfisicalConfig duration gotime nat string
  | Sync_head RepoDB InfisicalConfig duration gotime nat string string
  | Sync_stacks RepoDB InfisicalConfig duration gotime nat string string "(string \<times> bool) list"
  | Sync_unlock string nat
  | Apply_begin string string
  | Apply_lock string string StackState RepoDB InfisicalConfig nat
  | Apply_pull string string StackState RepoDB InfisicalConfig nat
  | Apply_unlock string string StackState InfisicalConfig nat bool
  | Apply_report string string StackState InfisicalConfig bool
  | Apply_compose string string StackState InfisicalConfig
  | Apply_refresh string string
  | Apply_leave string string
  | Finished

definition listed_entries :: "'w os \<Rightarrow> 'w \<Rightarrow> string \<Rightarrow> (string \<times> bool) list" where
  "listed_entries os w stacksDir =
     (if stacksDir = [] then [] else case os_ReadDir os w stacksDir of None \<Rightarrow> [] | Some es \<Rightarrow> es)"

definition apply_entry ::
    "'w platform \<Rightarrow> string \<Rightarrow> string \<Rightarrow> InfisicalConfig \<Rightarrow> string \<times> bool \<Rightarrow> ('w, 'z) daemon_scheme \<Rightarrow> ('w, 'z) daemon_scheme" where
  "apply_entry pf stacksDir repoName cfg e d =
     (if \<not> snd e \<or> \<not> has_compose (pf_os pf) (world d) (filepath_Join stacksDir (fst e)) then d
      else applyStack pf (filepath_Join stacksDir (fst e)) (fst e) repoName cfg d)"

fun sync_step :: "'w platform \<Rightarrow> config \<Rightarrow> thread \<Rightarrow> 'w shared \<Rightarrow> (thread \<times> 'w shared) option" where
  "sync_step pf cf (Sync_begin repo cfg i) sh =
     (let (start, s1) = time_Now (pf_os pf) (sh_svc sh);
          (m, lt) = repoLock (rdb_Name repo) (sh_locks sh) in
      Some (Sync_lock repo cfg i start m, \<lparr>sh_svc = on_store (mark_syncing (rdb_Name repo)) s1, sh_locks = lt\<rparr>))"
| "sync_step pf cf (Sync_lock repo cfg i start m) sh =
     map_option (\<lambda>lt.
       (Sync_pull repo cfg i start m
          (case GetRepo (d_store (sh_svc sh)) (rdb_Name repo) of None \<Rightarrow> [] | Some rs \<Rightarrow> rs_LastSHA rs),
        \<lparr>sh_svc = publish (event ''pulling'' (rdb_Name repo) [] (''Pulling '' @ rdb_Name repo)) (sh_svc sh), sh_locks = lt\<rparr>))
       (mutex_Lock m (sh_locks sh))"
| "sync_step pf cf (Sync_pull repo cfg i start m oldSHA) sh =
     (let (dest, s1) = gitSyncToDisk pf cf repo (sh_svc sh); name = rdb_Name repo in
      case dest of
        Inl e \<Rightarrow> Some (Sync_unlock name m, sh\<lparr>sh_svc :=
                   recordError pf name (effectiveInterval repo i) start (''git sync failed: '' @ e)
                     (publish (event ''error'' name [] (name @ '' pull failed'')) s1)\<rparr>)
      | Inr destDir \<Rightarrow> Some (Sync_head repo cfg i start m oldSHA destDir, sh\<lparr>sh_svc := s1\<rparr>))"
| "sync_step pf cf (Sync_head repo cfg i start m oldSHA destDir) sh =
     (let (sha, s1) = HeadSHA (pf_os pf) destDir (sh_svc sh); name = rdb_Name repo;
          stacksDir = filepath_Join destDir (rdb_StacksDir repo) in
      case sha of
        Inl e \<Rightarrow> Some (Sync_unlock name m, sh\<lparr>sh_svc :=
                   recordError pf name (effectiveInterval repo i) start (''resolve HEAD SHA: '' @ e)
                     (publish (event ''error'' name [] (name @ '' sync failed'')) s1)\<rparr>)
      | Inr newSHA \<Rightarrow>
          Some (Sync_stacks repo cfg i start m newSHA stacksDir
                  (if newSHA \<noteq> oldSHA then listed_entries (pf_os pf) (world s1) stacksDir else []),
                sh\<lparr>sh_svc := s1\<rparr>))"
| "sync_step pf cf (Sync_stacks repo cfg i start m newSHA stacksDir (e # es)) sh =
     Some (Sync_stacks repo cfg i start m newSHA stacksDir es,
           sh\<lparr>sh_svc := apply_entry pf stacksDir (rdb_Name repo) cfg e (sh_svc sh)\<rparr>)"
| "sync_step pf cf (Sync_stacks repo cfg i start m newSHA stacksDir []) sh =
     (let name = rdb_Name repo in
      Some (Sync_unlock name m, sh\<lparr>sh_svc :=
        recordSuccess pf name (effectiveInterval repo i) start newSHA
          (publish (event ''done'' name [] (name @ '' up to date'')) (sh_svc sh))\<rparr>))"
| "sync_step pf cf (Sync_unlock name m) sh = Some (Finished, sh\<lparr>sh_locks := mutex_Unlock m (sh_locks sh)\<rparr>)"
| "sync_step pf cf t sh = None"

fun apply_thread_step :: "'w platform \<Rightarrow> config \<Rightarrow> thread \<Rightarrow> 'w shared \<Rightarrow> (thread \<times> 'w shared) option" where
  "apply_thread_step pf cf (Apply_begin repoName stackName) sh =
     (case GetStack (d_store (sh_svc sh)) repoName stackName of
        None \<Rightarrow> Some (Apply_leave repoName stackName, sh)
      | Some st \<Rightarrow>
          (let (repo, s1) = on_db (GetRepoByName (pf_dt pf) repoName) (sh_svc sh) in
           case repo of
             Inl _ \<Rightarrow> Some (Apply_leave repoName stackName, sh\<lparr>sh_svc := s1\<rparr>)
           | Inr repoDB \<Rightarrow>
               (let (cfg, s2) = loadInfisicalFromDB pf cf s1; (m, lt) = repoLock repoName (sh_locks sh) in
                Some (Apply_lock repoName stackName st repoDB cfg m,
                      \<lparr>sh_svc = publish (event ''pulling'' repoName [] (''Pulling '' @ repoName)) s2, sh_locks = lt\<rparr>))))"
| "apply_thread_step pf cf (Apply_lock repoName stackName st repoDB cfg m) sh =
     map_option (\<lambda>lt. (Apply_pull repoName stackName st repoDB cfg m, sh\<lparr>sh_locks := lt\<rparr>)) (mutex_Lock m (sh_locks sh))"
| "apply_thread_step pf cf (Apply_pull repoName stackName st repoDB cfg m) sh =
     (let (r, s1) = gitSyncToDisk pf cf repoDB (sh_svc sh) in
      Some (Apply_unlock repoName stackName st cfg m (case r of Inl _ \<Rightarrow> False | Inr _ \<Rightarrow> True), sh\<lparr>sh_svc := s1\<rparr>))"
| "apply_thread_step pf cf (Apply_unlock repoName stackName st cfg m ok) sh =
     Some (Apply_report repoName stackName st cfg ok, sh\<lparr>sh_locks := mutex_Unlock m (sh_locks sh)\<rparr>)"
| "apply_thread_step pf cf (Apply_report repoName stackName st cfg ok) sh =
     Some (Apply_compose repoName stackName st cfg, sh\<lparr>sh_svc := publish
       (if ok then event ''done'' repoName [] (repoName @ '' up to date'')
        else event ''error'' repoName [] (repoName @ '' pull failed'')) (sh_svc sh)\<rparr>)"
| "apply_thread_step pf cf (Apply_compose repoName stackName st cfg) sh =
     Some (Apply_refresh repoName stackName,
           sh\<lparr>sh_svc := applyStack pf (ss_StackDir st) stackName repoName cfg (sh_svc sh)\<rparr>)"
| "apply_thread_step pf cf (Apply_refresh repoName stackName) sh =
     Some (Apply_leave repoName stackName, sh\<lparr>sh_svc := refreshContainers pf (sh_svc sh)\<rparr>)"
| "apply_thread_step pf cf (Apply_leave repoName stackName) sh =
     Some (Finished, sh\<lparr>sh_svc := job_done (repoName, stackName) (sh_svc sh)\<rparr>)"
| "apply_thread_step pf cf t sh = None"

definition thread_step :: "'w platform \<Rightarrow> config \<Rightarrow> thread \<Rightarrow> 'w shared \<Rightarrow> (thread \<times> 'w shared) option" where
  "thread_step pf cf t sh =
     (case sync_step pf cf t sh of Some x \<Rightarrow> Some x | None \<Rightarrow> apply_thread_step pf cf t sh)"

section \<open>What a thread keeps\<close>

text \<open>What it has to do with locks, and the accepted job it works for.\<close>

fun use_of :: "thread \<Rightarrow> lock_use" where
  "use_of (Sync_lock repo cfg i start m) = Wants (rdb_Name repo) m"
| "use_of (Sync_pull repo cfg i start m oldSHA) = Has (rdb_Name repo) m"
| "use_of (Sync_head repo cfg i start m oldSHA destDir) = Has (rdb_Name repo) m"
| "use_of (Sync_stacks repo cfg i start m newSHA stacksDir es) = Has (rdb_Name repo) m"
| "use_of (Sync_unlock name m) = Has name m"
| "use_of (Apply_lock repoName stackName st repo cfg m) = Wants repoName m"
| "use_of (Apply_pull repoName stackName st repo cfg m) = Has repoName m"
| "use_of (Apply_unlock repoName stackName st cfg m ok) = Has repoName m"
| "use_of t = No_lock"

fun job_of :: "thread \<Rightarrow> (string \<times> string) list" where
  "job_of (Apply_begin r n) = [(r, n)]"
| "job_of (Apply_lock r n st repo cfg m) = [(r, n)]"
| "job_of (Apply_pull r n st repo cfg m) = [(r, n)]"
| "job_of (Apply_unlock r n st cfg m ok) = [(r, n)]"
| "job_of (Apply_report r n st cfg ok) = [(r, n)]"
| "job_of (Apply_compose r n st cfg) = [(r, n)]"
| "job_of (Apply_refresh r n) = [(r, n)]"
| "job_of (Apply_leave r n) = [(r, n)]"
| "job_of t = []"

text \<open>
  A thread works on a row the API let in; a callback locks the name it was given and works on the row
  with that name.
\<close>

fun thread_good :: "'w platform \<Rightarrow> thread \<Rightarrow> bool" where
  "thread_good pf (Sync_begin repo cfg i) = merge_ok pf repo"
| "thread_good pf (Sync_lock repo cfg i start m) = merge_ok pf repo"
| "thread_good pf (Sync_pull repo cfg i start m oldSHA) = merge_ok pf repo"
| "thread_good pf (Sync_head repo cfg i start m oldSHA destDir) = merge_ok pf repo"
| "thread_good pf (Sync_stacks repo cfg i start m newSHA stacksDir es) = merge_ok pf repo"
| "thread_good pf (Apply_lock repoName stackName st repo cfg m) = (merge_ok pf repo \<and> rdb_Name repo = repoName)"
| "thread_good pf (Apply_pull repoName stackName st repo cfg m) = (merge_ok pf repo \<and> rdb_Name repo = repoName)"
| "thread_good pf t = True"

lemma apply_entry_background: "background d (apply_entry pf sd r cfg e d)"
  by (auto simp: apply_entry_def intro!: bg_parts)

lemma lookup_step: "lock_step (lt, No_lock) (snd (repoLock r lt), Wants r (fst (repoLock r lt)))"
  by (rule l_lookup) simp

lemma sync_step_lock: "sync_step pf cf t sh = Some (t', sh') \<Longrightarrow> lock_step (sh_locks sh, use_of t) (sh_locks sh', use_of t')"
  by (cases "(pf, cf, t, sh)" rule: sync_step.cases)
    (auto simp: split_def Let_def split: sum.splits intro: lock_step.intros lookup_step)

lemma apply_step_lock:
  "apply_thread_step pf cf t sh = Some (t', sh') \<Longrightarrow> lock_step (sh_locks sh, use_of t) (sh_locks sh', use_of t')"
  by (cases "(pf, cf, t, sh)" rule: apply_thread_step.cases)
    (auto simp: split_def Let_def split: sum.splits option.splits intro: lock_step.intros lookup_step)

lemma thread_step_lock: "thread_step pf cf t sh = Some (t', sh') \<Longrightarrow> lock_step (sh_locks sh, use_of t) (sh_locks sh', use_of t')"
  by (auto simp: thread_step_def split: option.splits intro: sync_step_lock apply_step_lock)

lemma sync_step_background:
  "sync_step pf cf t sh = Some (t', sh') \<Longrightarrow> background (sh_svc sh) (sh_svc sh') \<and> job_of t = [] \<and> job_of t' = []"
  by (cases "(pf, cf, t, sh)" rule: sync_step.cases)
    (auto simp: split_def Let_def split: sum.splits
      intro!: bg_rounds HeadSHA_frames(1) [THEN background_machine, THEN background_after] apply_entry_background [THEN background_after])

lemma apply_step_background:
  "apply_thread_step pf cf t sh = Some (t', sh') \<Longrightarrow> \<nexists>r n. t = Apply_leave r n
     \<Longrightarrow> background (sh_svc sh) (sh_svc sh') \<and> job_of t' = job_of t"
  by (cases "(pf, cf, t, sh)" rule: apply_thread_step.cases)
    (auto simp: split_def Let_def split: sum.splits option.splits intro!: bg_rounds)

lemma leave_step:
  "thread_step pf cf (Apply_leave r n) sh = Some (Finished, sh\<lparr>sh_svc := job_done (r, n) (sh_svc sh)\<rparr>)"
  by (simp add: thread_step_def)

lemma thread_step_background:
  assumes "thread_step pf cf t sh = Some (t', sh')"
  obtains "background (sh_svc sh) (sh_svc sh')" "job_of t' = job_of t"
  | r n where "t = Apply_leave r n" "t' = Finished" "sh_svc sh' = job_done (r, n) (sh_svc sh)"
proof (cases "\<exists>r n. t = Apply_leave r n")
  case True
  then show ?thesis using assms that(2) by (auto simp: leave_step)
next
  case False
  then show ?thesis
    using assms that(1) sync_step_background [of pf cf t sh t' sh'] apply_step_background [of pf cf t sh t' sh']
    by (auto simp: thread_step_def split: option.splits)
qed

lemma GetRepoByName_name: "fst (GetRepoByName dt n d) = Inr r \<Longrightarrow> rdb_Name r = n"
  by (auto simp: GetRepoByName_def select_repo_def split_def Let_def find_Some_iff scanRepo_def split: if_splits option.splits)

lemma GetRepoByName_valid: "fst (GetRepoByName dt n d) = Inr r \<Longrightarrow> rows_valid pf d \<Longrightarrow> merge_ok pf r"
  using driver_call_tables(1) [of d]
  by (auto simp: GetRepoByName_def select_repo_def split_def Let_def rows_valid_def merge_ok_scan list_all_iff
      find_Some_iff split: if_splits option.splits)

lemma thread_step_good:
  assumes "thread_step pf cf t sh = Some (t', sh')" "service_ok pf (sh_svc sh)" "thread_good pf t"
  shows "thread_good pf t'"
proof -
  have rows: "rows_valid pf (d_db (sh_svc sh))" using assms(2) by (simp add: service_ok_def)
  have "sync_step pf cf t sh = Some (t', sh') \<Longrightarrow> thread_good pf t'"
    using assms(3) by (cases "(pf, cf, t, sh)" rule: sync_step.cases) (auto simp: split_def Let_def split: sum.splits)
  moreover have "apply_thread_step pf cf t sh = Some (t', sh') \<Longrightarrow> thread_good pf t'"
    using assms(3) rows by (cases "(pf, cf, t, sh)" rule: apply_thread_step.cases)
      (auto simp: split_def Let_def frame_simps GetRepoByName_name GetRepoByName_valid split: sum.splits option.splits)
  ultimately show ?thesis using assms(1) by (auto simp: thread_step_def split: option.splits)
qed

text \<open>The pieces a thread has left, the stacks of a sync once they are listed.\<close>

fun work_left :: "thread \<Rightarrow> nat \<times> nat" where
  "work_left (Sync_begin repo cfg i) = (6, 0)"
| "work_left (Sync_lock repo cfg i start m) = (5, 0)"
| "work_left (Sync_pull repo cfg i start m oldSHA) = (4, 0)"
| "work_left (Sync_head repo cfg i start m oldSHA destDir) = (3, 0)"
| "work_left (Sync_stacks repo cfg i start m newSHA stacksDir es) = (2, length es)"
| "work_left (Sync_unlock name m) = (1, 0)"
| "work_left (Apply_begin r n) = (8, 0)"
| "work_left (Apply_lock r n st repo cfg m) = (7, 0)"
| "work_left (Apply_pull r n st repo cfg m) = (6, 0)"
| "work_left (Apply_unlock r n st cfg m ok) = (5, 0)"
| "work_left (Apply_report r n st cfg ok) = (4, 0)"
| "work_left (Apply_compose r n st cfg) = (3, 0)"
| "work_left (Apply_refresh r n) = (2, 0)"
| "work_left (Apply_leave r n) = (1, 0)"
| "work_left Finished = (0, 0)"

definition shorter :: "((nat \<times> nat) \<times> (nat \<times> nat)) set" where
  "shorter = less_than <*lex*> less_than"

lemma wf_shorter: "wf shorter"
  by (simp add: shorter_def wf_lex_prod)

lemma thread_step_shorter: "thread_step pf cf t sh = Some (t', sh') \<Longrightarrow> (work_left t', work_left t) \<in> shorter"
proof -
  have "sync_step pf cf t sh = Some (t', sh') \<Longrightarrow> (work_left t', work_left t) \<in> shorter"
    by (cases "(pf, cf, t, sh)" rule: sync_step.cases) (auto simp: shorter_def split_def Let_def split: sum.splits)
  moreover have "apply_thread_step pf cf t sh = Some (t', sh') \<Longrightarrow> (work_left t', work_left t) \<in> shorter"
    by (cases "(pf, cf, t, sh)" rule: apply_thread_step.cases)
      (auto simp: shorter_def split_def Let_def split: sum.splits option.splits)
  ultimately show "thread_step pf cf t sh = Some (t', sh') \<Longrightarrow> (work_left t', work_left t) \<in> shorter"
    by (auto simp: thread_step_def split: option.splits)
qed

section \<open>A thread that runs alone\<close>

definition alone_step :: "'w platform \<Rightarrow> config \<Rightarrow> thread \<times> 'w shared \<Rightarrow> thread \<times> 'w shared \<Rightarrow> bool" where
  "alone_step pf cf x y \<longleftrightarrow> thread_step pf cf (fst x) (snd x) = Some y"

abbreviation runs :: "'w platform \<Rightarrow> config \<Rightarrow> thread \<times> 'w shared \<Rightarrow> thread \<times> 'w shared \<Rightarrow> bool" where
  "runs pf cf \<equiv> (alone_step pf cf)\<^sup>*\<^sup>*"

lemma runs_step: "thread_step pf cf t sh = Some y \<Longrightarrow> runs pf cf y z \<Longrightarrow> runs pf cf (t, sh) z"
  by (rule converse_rtranclp_into_rtranclp) (simp_all add: alone_step_def)

lemma apply_entries_fold: "apply_entries pf sd r cfg es d = fold (apply_entry pf sd r cfg) es d"
  by (induction pf sd r cfg es d rule: apply_entries.induct) (simp_all add: apply_entry_def Let_def)

lemma runStacksSync_fold: "runStacksSync pf sd r cfg d = fold (apply_entry pf sd r cfg) (listed_entries (pf_os pf) (world d) sd) d"
  by (simp add: runStacksSync_def listed_entries_def apply_entries_fold split: option.split)

lemma runs_refl [simp]: "runs pf cf x x"
  by (rule rtranclp.rtrancl_refl)

lemma stacks_run:
  "runs pf cf (Sync_stacks repo cfg i start m sha sd es, \<lparr>sh_svc = d, sh_locks = lt\<rparr>)
     (Sync_stacks repo cfg i start m sha sd [], \<lparr>sh_svc = fold (apply_entry pf sd (rdb_Name repo) cfg) es d, sh_locks = lt\<rparr>)"
proof (induction es arbitrary: d)
  case (Cons e es)
  show ?case by (rule runs_step) (simp add: thread_step_def, simp add: Cons.IH)
qed simp

lemma unlock_run:
  "runs pf cf (Sync_unlock r m, \<lparr>sh_svc = d, sh_locks = lt\<rparr>) (Finished, \<lparr>sh_svc = d, sh_locks = mutex_Unlock m lt\<rparr>)"
  by (rule runs_step) (simp add: thread_step_def, simp)

text \<open>From the lock held to the end: what \<^verbatim>\<open>syncRepoFromDB\<close> does after \<^verbatim>\<open>mu.Lock()\<close>.\<close>

definition pulled_sync ::
    "'w platform \<Rightarrow> config \<Rightarrow> RepoDB \<Rightarrow> InfisicalConfig \<Rightarrow> duration \<Rightarrow> gotime \<Rightarrow> string \<Rightarrow> ('w, 'z) daemon_scheme \<Rightarrow> ('w, 'z) daemon_scheme" where
  "pulled_sync pf cf repo cfg i start oldSHA d3 =
     (let name = rdb_Name repo; (dest, d4) = gitSyncToDisk pf cf repo d3 in
      case dest of
        Inl e \<Rightarrow> recordError pf name (effectiveInterval repo i) start (''git sync failed: '' @ e)
                   (publish (event ''error'' name [] (name @ '' pull failed'')) d4)
      | Inr destDir \<Rightarrow>
          (let (sha, d5) = HeadSHA (pf_os pf) destDir d4 in
           case sha of
             Inl e \<Rightarrow> recordError pf name (effectiveInterval repo i) start (''resolve HEAD SHA: '' @ e)
                        (publish (event ''error'' name [] (name @ '' sync failed'')) d5)
           | Inr newSHA \<Rightarrow>
               recordSuccess pf name (effectiveInterval repo i) start newSHA
                 (publish (event ''done'' name [] (name @ '' up to date''))
                   (if newSHA \<noteq> oldSHA then runStacksSync pf (filepath_Join destDir (rdb_StacksDir repo)) name cfg d5 else d5))))"

lemma pull_run:
  "runs pf cf (Sync_pull repo cfg i start m oldSHA, \<lparr>sh_svc = d, sh_locks = lt\<rparr>)
     (Finished, \<lparr>sh_svc = pulled_sync pf cf repo cfg i start oldSHA d, sh_locks = mutex_Unlock m lt\<rparr>)"
proof -
  let ?name = "rdb_Name repo"
  obtain dest d4 where g: "gitSyncToDisk pf cf repo d = (dest, d4)" by fastforce
  show ?thesis
  proof (cases dest)
    case (Inl e)
    show ?thesis
      by (rule runs_step) (simp add: thread_step_def g Inl Let_def, simp add: pulled_sync_def g Inl unlock_run Let_def)
  next
    case (Inr destDir)
    let ?sd = "filepath_Join destDir (rdb_StacksDir repo)"
    obtain sha d5 where h: "HeadSHA (pf_os pf) destDir d4 = (sha, d5)" by fastforce
    have head: "runs pf cf (Sync_head repo cfg i start m oldSHA destDir, \<lparr>sh_svc = d4, sh_locks = lt\<rparr>)
      (Finished, \<lparr>sh_svc = pulled_sync pf cf repo cfg i start oldSHA d, sh_locks = mutex_Unlock m lt\<rparr>)"
    proof (cases sha)
      case (Inl e)
      show ?thesis
        by (rule runs_step) (simp add: thread_step_def h Inl Let_def, simp add: pulled_sync_def g Inr h Inl unlock_run Let_def)
    next
      case newSHA: (Inr newSHA)
      let ?es = "if newSHA \<noteq> oldSHA then listed_entries (pf_os pf) (world d5) ?sd else []"
      let ?d6 = "fold (apply_entry pf ?sd ?name cfg) ?es d5"
      have "?d6 = (if newSHA \<noteq> oldSHA then runStacksSync pf ?sd ?name cfg d5 else d5)"
        by (simp add: runStacksSync_fold)
      then have tail: "runs pf cf (Sync_stacks repo cfg i start m newSHA ?sd [], \<lparr>sh_svc = ?d6, sh_locks = lt\<rparr>)
        (Finished, \<lparr>sh_svc = pulled_sync pf cf repo cfg i start oldSHA d, sh_locks = mutex_Unlock m lt\<rparr>)"
        by (intro runs_step) (simp add: thread_step_def Let_def, simp add: pulled_sync_def g Inr h newSHA unlock_run Let_def)
      show ?thesis
        by (rule runs_step [OF _ rtranclp_trans [OF stacks_run tail]]) (simp add: thread_step_def h newSHA Let_def)
    qed
    show ?thesis by (rule runs_step [OF _ head]) (simp add: thread_step_def g Inr Let_def)
  qed
qed

lemma syncRepoFromDB_pulled:
  "syncRepoFromDB pf cf repo cfg i d =
     (let d2 = on_store (mark_syncing (rdb_Name repo)) (snd (time_Now (pf_os pf) d)) in
      pulled_sync pf cf repo cfg i (fst (time_Now (pf_os pf) d))
        (case GetRepo (d_store d2) (rdb_Name repo) of None \<Rightarrow> [] | Some rs \<Rightarrow> rs_LastSHA rs)
        (publish (event ''pulling'' (rdb_Name repo) [] (''Pulling '' @ rdb_Name repo)) d2))"
  by (simp add: syncRepoFromDB_def pulled_sync_def split_def Let_def split: sum.split)

lemma sync_run:
  assumes "lock_free (rdb_Name repo) lt"
  shows "\<exists>lt'. runs pf cf (Sync_begin repo cfg i, \<lparr>sh_svc = d, sh_locks = lt\<rparr>)
      (Finished, \<lparr>sh_svc = syncRepoFromDB pf cf repo cfg i d, sh_locks = lt'\<rparr>) \<and> (\<forall>q. lock_free q lt \<longrightarrow> lock_free q lt')"
proof -
  obtain m lt1 where l: "repoLock (rdb_Name repo) lt = (m, lt1)" by fastforce
  obtain lt2 where lt2: "mutex_Lock m lt1 = Some lt2" "\<forall>q. lock_free q lt \<longrightarrow> lock_free q (mutex_Unlock m lt2)"
    using repoLock_free [OF assms l] by blast
  obtain start d1 where n: "time_Now (pf_os pf) d = (start, d1)" by fastforce
  let ?d2 = "on_store (mark_syncing (rdb_Name repo)) d1"
  have "runs pf cf (Sync_lock repo cfg i start m, \<lparr>sh_svc = ?d2, sh_locks = lt1\<rparr>)
      (Finished, \<lparr>sh_svc = syncRepoFromDB pf cf repo cfg i d, sh_locks = mutex_Unlock m lt2\<rparr>)"
    by (rule runs_step) (simp add: thread_step_def lt2, simp add: syncRepoFromDB_pulled n Let_def pull_run)
  then have "runs pf cf (Sync_begin repo cfg i, \<lparr>sh_svc = d, sh_locks = lt\<rparr>)
      (Finished, \<lparr>sh_svc = syncRepoFromDB pf cf repo cfg i d, sh_locks = mutex_Unlock m lt2\<rparr>)"
    by (rule runs_step [rotated]) (simp add: thread_step_def n l)
  with lt2(2) show ?thesis by blast
qed

lemma leave_run:
  "runs pf cf (Apply_leave r n, \<lparr>sh_svc = d, sh_locks = lt\<rparr>) (Finished, \<lparr>sh_svc = job_done (r, n) d, sh_locks = lt\<rparr>)"
  by (rule runs_step) (simp add: leave_step, simp)

lemma report_run:
  "runs pf cf (Apply_report r n st cfg ok, \<lparr>sh_svc = d, sh_locks = lt\<rparr>)
     (Finished, \<lparr>sh_svc = job_done (r, n) (refreshContainers pf (applyStack pf (ss_StackDir st) n r cfg
        (publish (if ok then event ''done'' r [] (r @ '' up to date'') else event ''error'' r [] (r @ '' pull failed'')) d))),
        sh_locks = lt\<rparr>)"
  by (rule runs_step, simp add: thread_step_def, rule runs_step, simp add: thread_step_def, rule runs_step,
      simp add: thread_step_def, rule leave_run)

lemma apply_run:
  assumes "lock_free r lt"
  shows "\<exists>lt'. runs pf cf (Apply_begin r n, \<lparr>sh_svc = d, sh_locks = lt\<rparr>)
      (Finished, \<lparr>sh_svc = apply_job pf cf (r, n) d, sh_locks = lt'\<rparr>) \<and> (\<forall>q. lock_free q lt \<longrightarrow> lock_free q lt')"
proof (cases "GetStack (d_store d) r n")
  case None
  have "runs pf cf (Apply_begin r n, \<lparr>sh_svc = d, sh_locks = lt\<rparr>) (Finished, \<lparr>sh_svc = apply_job pf cf (r, n) d, sh_locks = lt\<rparr>)"
    by (rule runs_step) (simp add: thread_step_def None, simp add: apply_job_def onApply_def None leave_run)
  then show ?thesis by blast
next
  case st: (Some st)
  obtain repo d1 where g: "on_db (GetRepoByName (pf_dt pf) r) d = (repo, d1)" by fastforce
  show ?thesis
  proof (cases repo)
    case (Inl e)
    have "runs pf cf (Apply_begin r n, \<lparr>sh_svc = d, sh_locks = lt\<rparr>) (Finished, \<lparr>sh_svc = apply_job pf cf (r, n) d, sh_locks = lt\<rparr>)"
      by (rule runs_step) (simp add: thread_step_def st g Inl, simp add: apply_job_def onApply_def st g Inl leave_run)
    then show ?thesis by blast
  next
    case (Inr row)
    obtain m lt1 where l: "repoLock r lt = (m, lt1)" by fastforce
    obtain lt2 where lt2: "mutex_Lock m lt1 = Some lt2" "\<forall>q. lock_free q lt \<longrightarrow> lock_free q (mutex_Unlock m lt2)"
      using repoLock_free [OF assms l] by blast
    obtain cfg d2 where i: "loadInfisicalFromDB pf cf d1 = (cfg, d2)" by fastforce
    let ?d3 = "publish (event ''pulling'' r [] (''Pulling '' @ r)) d2"
    obtain res d4 where p: "gitSyncToDisk pf cf row ?d3 = (res, d4)" by fastforce
    let ?ok = "case res of Inl _ \<Rightarrow> False | Inr _ \<Rightarrow> True"
    have fin: "runs pf cf (Apply_report r n st cfg ?ok, \<lparr>sh_svc = d4, sh_locks = mutex_Unlock m lt2\<rparr>)
        (Finished, \<lparr>sh_svc = apply_job pf cf (r, n) d, sh_locks = mutex_Unlock m lt2\<rparr>)"
      using report_run [of pf cf r n st cfg ?ok d4 "mutex_Unlock m lt2"] p
      by (cases res) (simp_all add: apply_job_def onApply_def st g Inr i Let_def)
    let ?fin = "(Finished, \<lparr>sh_svc = apply_job pf cf (r, n) d, sh_locks = mutex_Unlock m lt2\<rparr>)"
    have "runs pf cf (Apply_unlock r n st cfg m ?ok, \<lparr>sh_svc = d4, sh_locks = lt2\<rparr>) ?fin"
      by (rule runs_step [OF _ fin]) (simp add: thread_step_def)
    then have "runs pf cf (Apply_pull r n st row cfg m, \<lparr>sh_svc = ?d3, sh_locks = lt2\<rparr>) ?fin"
      by (rule runs_step [rotated]) (use p in \<open>simp add: thread_step_def\<close>)
    then have "runs pf cf (Apply_lock r n st row cfg m, \<lparr>sh_svc = ?d3, sh_locks = lt1\<rparr>) ?fin"
      by (rule runs_step [rotated]) (simp add: thread_step_def lt2)
    then have "runs pf cf (Apply_begin r n, \<lparr>sh_svc = d, sh_locks = lt\<rparr>)
        (Finished, \<lparr>sh_svc = apply_job pf cf (r, n) d, sh_locks = mutex_Unlock m lt2\<rparr>)"
      by (rule runs_step [rotated]) (simp add: thread_step_def st g Inr i l)
    with lt2(2) show ?thesis by blast
  qed
qed

end
