(* ===== verification/Concurrency.thy ===== *)
theory Concurrency
  imports Goroutines
begin

text \<open>
  The whole program with its goroutines interleaved: the main loop of \<^verbatim>\<open>main\<close> piece by piece, the syncs it
  calls, the apply callbacks, the refreshes, the requests, the event streams, and other programs; and
  what holds in every state of this machine.
\<close>

section \<open>The main loop\<close>

text \<open>
  The points of the loop between which others run, with the variables live there: a turn reads the
  repositories and the settings, goes through the round, waits in the \<^verbatim>\<open>select\<close>, and after a trigger
  drains the queue and goes through the requested repositories. A sync the loop calls is its thread,
  \<open>Finished\<close> when none is running.
\<close>

datatype loop_point =
    L_turn
  | L_settings "RepoDB list"
  | L_interval "RepoDB list" InfisicalConfig
  | L_show "RepoDB list" InfisicalConfig duration
  | L_round "RepoDB list" InfisicalConfig duration "RepoDB list"
  | L_due "RepoDB list" InfisicalConfig duration RepoDB "RepoDB list"
  | L_wait "RepoDB list" duration
  | L_drain "RepoDB list" duration "string list"
  | L_load "RepoDB list" duration "string list"
  | L_manual duration "string list" InfisicalConfig "RepoDB list"
  | L_refresh "RepoDB list" duration
  | L_refresh_manual
  | L_ended

fun loop_step :: "'w platform \<Rightarrow> config \<Rightarrow> loop_point \<Rightarrow> 'w service \<Rightarrow> (loop_point \<times> thread \<times> 'w service) option" where
  "loop_step pf cf L_turn s =
     (let (listed, s1) = on_db (ListRepos (pf_dt pf)) s in
      Some (L_settings (case listed of Inl _ \<Rightarrow> [] | Inr repos \<Rightarrow> repos), Finished, s1))"
| "loop_step pf cf (L_settings repos) s =
     (let (icfg, s1) = loadInfisicalFromDB pf cf s in Some (L_interval repos icfg, Finished, s1))"
| "loop_step pf cf (L_interval repos icfg) s =
     (let (interval, s1) = on_db loadDefaultInterval s in Some (L_show repos icfg interval, Finished, s1))"
| "loop_step pf cf (L_show repos icfg interval) s =
     Some (L_round repos icfg interval repos, Finished, on_store (SetInfisical (show_infisical icfg)) s)"
| "loop_step pf cf (L_round repos icfg interval []) s = Some (L_refresh repos interval, Finished, s)"
| "loop_step pf cf (L_round repos icfg interval (repo # rest)) s =
     (if pf_ctx_done pf (world s) then Some (L_wait repos interval, Finished, s)
      else if \<not> rdb_Enabled repo then Some (L_round repos icfg interval rest, Finished, s)
      else
        (let (now, s1) = time_Now (pf_os pf) s;
             (skip, sch) = shouldSkipSync (rdb_Name repo) now (d_sched s1) in
         Some (if skip then L_round repos icfg interval rest else L_due repos icfg interval repo rest,
               Finished, s1\<lparr>d_sched := sch\<rparr>)))"
| "loop_step pf cf (L_due repos icfg interval repo rest) s =
     (let (now, s1) = time_Now (pf_os pf) s in
      Some (L_round repos icfg interval rest,
            if dueForSync (rdb_Name repo) now (d_sched s1) then Sync_begin repo icfg interval else Finished, s1))"
| "loop_step pf cf (L_drain repos interval triggered) s =
     (case trigger_recv (sv_trigger s) of
        None \<Rightarrow> Some (L_load repos interval triggered, Finished, s)
      | Some (extra, q) \<Rightarrow> Some (L_drain repos interval (triggered @ [extra]), Finished, s\<lparr>sv_trigger := q\<rparr>))"
| "loop_step pf cf (L_load repos interval triggered) s =
     (let (icfg, s1) = loadInfisicalFromDB pf cf s in Some (L_manual interval triggered icfg repos, Finished, s1))"
| "loop_step pf cf (L_manual interval triggered icfg []) s = Some (L_refresh_manual, Finished, s)"
| "loop_step pf cf (L_manual interval triggered icfg (repo # rest)) s =
     (if rdb_Name repo \<notin> set triggered then Some (L_manual interval triggered icfg rest, Finished, s)
      else Some (L_manual interval triggered icfg rest, Sync_begin repo icfg interval,
                 on_sched (resetBackoff (rdb_Name repo)) s))"
| "loop_step pf cf (L_refresh repos interval) s = Some (L_wait repos interval, Finished, refreshContainers pf s)"
| "loop_step pf cf L_refresh_manual s = Some (L_turn, Finished, refreshContainers pf s)"
| "loop_step pf cf p s = None"

section \<open>The machine\<close>

text \<open>
  The shared service and locks, the point of the main loop, and the threads, the first of which is the
  loop's own. When \<^verbatim>\<open>main\<close> has returned, nothing runs any more.
\<close>

type_synonym 'w conc = "'w shared \<times> loop_point \<times> thread list"

definition uses :: "thread list \<Rightarrow> lock_use multiset" where
  "uses ts = image_mset use_of (mset ts)"

text \<open>The accepted jobs the threads work for.\<close>

definition jobs_of :: "thread list \<Rightarrow> (string \<times> string) multiset" where
  "jobs_of ts = mset (concat (map job_of ts))"

inductive conc_step :: "'w platform \<Rightarrow> config \<Rightarrow> 'w conc \<Rightarrow> 'w conc \<Rightarrow> bool" for pf :: "'w platform" and cf :: config where
  c_loop: "loop_step pf cf p (sh_svc sh) = Some (p', t, s) \<Longrightarrow>
     conc_step pf cf (sh, p, Finished # ts) (sh\<lparr>sh_svc := s\<rparr>, p', t # ts)"
| c_tick: "conc_step pf cf (sh, L_wait repos i, Finished # ts) (sh, L_turn, Finished # ts)"
| c_wake: "trigger_recv (sv_trigger (sh_svc sh)) = Some (r, q) \<Longrightarrow>
     conc_step pf cf (sh, L_wait repos i, Finished # ts)
       (sh\<lparr>sh_svc := (sh_svc sh)\<lparr>sv_trigger := q\<rparr>\<rparr>, L_drain repos i [r], Finished # ts)"
| c_stop: "pf_ctx_done pf (world (sh_svc sh)) \<Longrightarrow>
     conc_step pf cf (sh, L_wait repos i, Finished # ts) (sh, L_ended, Finished # ts)"
| c_run: "p \<noteq> L_ended \<Longrightarrow> n < length ts \<Longrightarrow> thread_step pf cf (ts ! n) sh = Some (t, sh') \<Longrightarrow>
     conc_step pf cf (sh, p, ts) (sh', p, ts[n := t])"
| c_apply: "p \<noteq> L_ended \<Longrightarrow> (r, n) \<in> set (sv_jobs (sh_svc sh)) \<Longrightarrow> (r, n) \<notin># jobs_of ts \<Longrightarrow>
     conc_step pf cf (sh, p, ts) (sh, p, ts @ [Apply_begin r n])"
| c_refreshed: "p \<noteq> L_ended \<Longrightarrow> n \<in> set (sv_refreshes (sh_svc sh)) \<Longrightarrow>
     conc_step pf cf (sh, p, ts) (sh\<lparr>sh_svc := refresh_job pf n (sh_svc sh)\<rparr>, p, ts)"
| c_request: "p \<noteq> L_ended \<Longrightarrow>
     conc_step pf cf (sh, p, ts) (sh\<lparr>sh_svc := snd (serve pf cf site inp rq (sh_svc sh))\<rparr>, p, ts)"
| c_stream: "p \<noteq> L_ended \<Longrightarrow> ch \<in> set (bus_subs (d_bus (sh_svc sh))) \<Longrightarrow>
     conc_step pf cf (sh, p, ts) (sh\<lparr>sh_svc := snd (activity_forward enc ch (sh_svc sh))\<rparr>, p, ts)"
| c_leave: "p \<noteq> L_ended \<Longrightarrow> ch \<in> set (bus_subs (d_bus (sh_svc sh))) \<Longrightarrow> activity_close ch (sh_svc sh) = Some s \<Longrightarrow>
     conc_step pf cf (sh, p, ts) (sh\<lparr>sh_svc := s\<rparr>, p, ts)"
| c_world: "p \<noteq> L_ended \<Longrightarrow> conc_step pf cf (sh, p, ts) (sh\<lparr>sh_svc := (sh_svc sh)\<lparr>world := w\<rparr>\<rparr>, p, ts)"

inductive_cases conc_stepE: "conc_step pf cf (sh, p, ts) y"

text \<open>The start: any service whose components are in order, as \<^verbatim>\<open>startup\<close> leaves it.\<close>

definition conc_start :: "'w platform \<Rightarrow> 'w conc \<Rightarrow> bool" where
  "conc_start pf x \<longleftrightarrow> service_ok pf (sh_svc (fst x)) \<and> sh_locks (fst x) = no_locks \<and> snd x = (L_turn, [Finished])"

section \<open>The invariant\<close>

fun repos_of :: "loop_point \<Rightarrow> RepoDB list" where
  "repos_of (L_settings repos) = repos"
| "repos_of (L_interval repos icfg) = repos"
| "repos_of (L_show repos icfg i) = repos"
| "repos_of (L_round repos icfg i rest) = repos @ rest"
| "repos_of (L_due repos icfg i repo rest) = repos @ repo # rest"
| "repos_of (L_wait repos i) = repos"
| "repos_of (L_drain repos i triggered) = repos"
| "repos_of (L_load repos i triggered) = repos"
| "repos_of (L_manual i triggered icfg rest) = rest"
| "repos_of (L_refresh repos i) = repos"
| "repos_of p = []"

definition conc_ok :: "'w platform \<Rightarrow> 'w conc \<Rightarrow> bool" where
  "conc_ok pf x \<longleftrightarrow> (case x of (sh, p, ts) \<Rightarrow>
     service_ok pf (sh_svc sh) \<and> locks_ok (sh_locks sh) (uses ts) \<and> list_all (thread_good pf) ts
     \<and> jobs_of ts \<subseteq># mset (sv_jobs (sh_svc sh)) \<and> list_all (merge_ok pf) (repos_of p)
     \<and> ts \<noteq> [] \<and> (p = L_ended \<longrightarrow> ts ! 0 = Finished))"

lemma trigger_recv_ok: "trigger_recv (sv_trigger s) = Some (r, q) \<Longrightarrow> service_ok pf s \<Longrightarrow> service_ok pf (s\<lparr>sv_trigger := q\<rparr>)"
  by (auto simp: trigger_recv_def service_ok_def jobs_ok_def split: list.splits)

lemma loop_step_ok:
  assumes st: "loop_step pf cf p s = Some (p', t, s')" and ok: "service_ok pf s" and repos: "list_all (merge_ok pf) (repos_of p)"
  shows "service_ok pf s' \<and> sv_jobs s' = sv_jobs s" and "list_all (merge_ok pf) (repos_of p') \<and> thread_good pf t"
    and "use_of t = No_lock \<and> job_of t = [] \<and> (p' = L_ended \<longrightarrow> t = Finished)"
proof -
  have bg: "background s s' \<or> (\<exists>r q. trigger_recv (sv_trigger s) = Some (r, q) \<and> s' = s\<lparr>sv_trigger := q\<rparr>)"
    using st by (cases "(pf, cf, p, s)" rule: loop_step.cases)
      (auto simp: split_def Let_def split: option.splits if_splits intro!: bg_rounds bg_parts bg)
  then show "service_ok pf s' \<and> sv_jobs s' = sv_jobs s"
    using service_ok_background [of s s' pf] background_jobs [of s s'] trigger_recv_ok [of s _ _ pf] ok by auto
  have "db_integrity (d_db s)" "rows_valid pf (d_db s)" using ok by (simp_all add: service_ok_def)
  note listed = ListRepos_ok [OF _ this]
  show "list_all (merge_ok pf) (repos_of p') \<and> thread_good pf t"
    using st repos by (cases "(pf, cf, p, s)" rule: loop_step.cases)
      (auto simp: split_def Let_def frame_simps listed split: option.splits if_splits sum.splits)
  show "use_of t = No_lock \<and> job_of t = [] \<and> (p' = L_ended \<longrightarrow> t = Finished)"
    using st by (cases "(pf, cf, p, s)" rule: loop_step.cases) (auto simp: split_def Let_def split: option.splits if_splits)
qed

lemma uses_split:
  assumes "n < length ts"
  obtains us where "uses ts = add_mset (use_of (ts ! n)) us" "\<And>t. uses (ts[n := t]) = add_mset (use_of t) us"
proof -
  let ?us = "image_mset use_of (mset ts - {#ts ! n#})"
  have "ts ! n \<in># mset ts" using assms by simp
  then have "mset ts = add_mset (ts ! n) (mset ts - {#ts ! n#})" by simp
  then have "uses ts = add_mset (use_of (ts ! n)) ?us" unfolding uses_def by (metis image_mset_add_mset)
  moreover have "uses (ts[n := t]) = add_mset (use_of t) ?us" for t
    using assms by (simp add: uses_def mset_update)
  ultimately show ?thesis by (rule that)
qed

lemma locks_ok_idle [simp]: "locks_ok lt (add_mset No_lock us) = locks_ok lt us"
  by (simp add: locks_ok_def)

lemma jobs_of_same: "n < length ts \<Longrightarrow> job_of t = job_of (ts ! n) \<Longrightarrow> jobs_of (ts[n := t]) = jobs_of ts"
  using concat_update [of n ts job_of t] by (simp add: jobs_of_def)

lemma jobs_of_leave:
  "n < length ts \<Longrightarrow> ts ! n = Apply_leave r k \<Longrightarrow> jobs_of ts = add_mset (r, k) (jobs_of (ts[n := Finished]))"
  using concat_update [of n ts job_of Finished] by (simp add: jobs_of_def)

text \<open>The next piece of a thread keeps what the machine maintains of the service and the jobs.\<close>

lemma thread_step_jobs:
  assumes st: "thread_step pf cf (ts ! n) sh = Some (t, sh')" and n: "n < length ts"
    and svc: "service_ok pf (sh_svc sh)" and jobs: "jobs_of ts \<subseteq># mset (sv_jobs (sh_svc sh))"
  shows "service_ok pf (sh_svc sh') \<and> jobs_of (ts[n := t]) \<subseteq># mset (sv_jobs (sh_svc sh'))"
  using st
proof (cases rule: thread_step_background)
  case 1
  then show ?thesis
    using service_ok_background [OF 1(1) svc] background_jobs [OF 1(1)] jobs jobs_of_same [OF n 1(2)] by simp
next
  case (2 r k)
  have split: "jobs_of ts = add_mset (r, k) (jobs_of (ts[n := Finished]))" using jobs_of_leave [OF n 2(1)] .
  then have sub: "(r, k) \<in># mset (sv_jobs (sh_svc sh)) \<and> jobs_of (ts[n := Finished]) \<subseteq># mset (sv_jobs (sh_svc sh)) - {#(r, k)#}"
    using jobs by (simp only: insert_subset_eq_iff)
  then show ?thesis using job_done_ok [OF svc, of "(r, k)"] by (simp add: 2 job_done_def)
qed

lemma jobs_kept_sub: "jobs_kept s t \<Longrightarrow> M \<subseteq># mset (sv_jobs s) \<Longrightarrow> M \<subseteq># mset (sv_jobs t)"
  unfolding jobs_kept_def by (rule subset_mset.order_trans)

lemma jobs_of_start:
  "(r, n) \<in> set js \<Longrightarrow> (r, n) \<notin># jobs_of ts \<Longrightarrow> jobs_of ts \<subseteq># mset js \<Longrightarrow> jobs_of (ts @ [Apply_begin r n]) \<subseteq># mset js"
proof -
  assume js: "(r, n) \<in> set js" "(r, n) \<notin># jobs_of ts" "jobs_of ts \<subseteq># mset js"
  then have "jobs_of ts \<subseteq># mset js - {#(r, n)#}" by (auto simp: subseteq_mset_def not_in_iff)
  moreover have "jobs_of (ts @ [Apply_begin r n]) = add_mset (r, n) (jobs_of ts)" by (simp add: jobs_of_def)
  ultimately show ?thesis using js(1) by (simp add: insert_subset_eq_iff)
qed

text \<open>Each kind of step keeps the invariant.\<close>

lemma conc_ok_run:
  assumes ok: "conc_ok pf (sh, p, ts)" and p: "p \<noteq> L_ended" and n: "n < length ts" and st: "thread_step pf cf (ts ! n) sh = Some (t, sh')"
  shows "conc_ok pf (sh', p, ts[n := t])"
proof -
  have svc: "service_ok pf (sh_svc sh)" and locks: "locks_ok (sh_locks sh) (uses ts)" and good: "list_all (thread_good pf) ts"
    and jobs: "jobs_of ts \<subseteq># mset (sv_jobs (sh_svc sh))" using ok by (simp_all add: conc_ok_def)
  obtain us where us: "uses ts = add_mset (use_of (ts ! n)) us" "\<And>t. uses (ts[n := t]) = add_mset (use_of t) us"
    using uses_split [OF n] by blast
  have "locks_ok (sh_locks sh') (uses (ts[n := t]))"
    using lock_step_ok [OF locks [unfolded us(1)] thread_step_lock [OF st]] by (simp add: us(2))
  moreover have "thread_good pf t" using thread_step_good [OF st svc] good n by (simp add: list_all_length)
  then have "list_all (thread_good pf) (ts[n := t])" using good n by (simp add: list_all_length nth_list_update)
  ultimately show ?thesis
    using ok p thread_step_jobs [OF st n svc jobs] by (simp add: conc_ok_def)
qed

lemma conc_ok_loop:
  assumes ok: "conc_ok pf (sh, p, Finished # ts)" and st: "loop_step pf cf p (sh_svc sh) = Some (p', t, s)"
  shows "conc_ok pf (sh\<lparr>sh_svc := s\<rparr>, p', t # ts)"
proof -
  have "service_ok pf (sh_svc sh)" "list_all (merge_ok pf) (repos_of p)" using ok by (simp_all add: conc_ok_def)
  from loop_step_ok [OF st this] ok show ?thesis by (simp add: conc_ok_def uses_def jobs_of_def)
qed

lemma conc_ok_service:
  "conc_ok pf (sh, p, ts) \<Longrightarrow> service_ok pf s \<Longrightarrow> jobs_kept (sh_svc sh) s \<Longrightarrow> conc_ok pf (sh\<lparr>sh_svc := s\<rparr>, p, ts)"
  by (simp add: conc_ok_def jobs_kept_sub)

lemma conc_ok_background: "conc_ok pf (sh, p, ts) \<Longrightarrow> background (sh_svc sh) s \<Longrightarrow> conc_ok pf (sh\<lparr>sh_svc := s\<rparr>, p, ts)"
  using service_ok_background [of "sh_svc sh" s pf] jobs_kept_same [OF background_jobs, of "sh_svc sh" s]
  by (intro conc_ok_service) (simp_all add: conc_ok_def)

lemma refresh_job_jobs: "sv_jobs (refresh_job pf n s) = sv_jobs s"
  using background_jobs [OF refreshContainerState_background] by (simp add: refresh_job_def Let_def)

lemma conc_step_ok:
  assumes ok: "conc_ok pf x" and st: "conc_step pf cf x y"
  shows "conc_ok pf y"
proof -
  obtain sh p ts where x: "x = (sh, p, ts)" by (cases x) auto
  have ok: "conc_ok pf (sh, p, ts)" using ok by (simp add: x)
  then have svc: "service_ok pf (sh_svc sh)" by (simp add: conc_ok_def)
  then have bus: "ch < length (bus_chans (d_bus (sh_svc sh)))" if "ch \<in> set (bus_subs (d_bus (sh_svc sh)))" for ch
    using that by (simp add: service_ok_def bus_ok_def)
  show ?thesis using st unfolding x
  proof (elim conc_stepE)
    fix p' t s ts' assume "loop_step pf cf p (sh_svc sh) = Some (p', t, s)" "y = (sh\<lparr>sh_svc := s\<rparr>, p', t # ts')" "ts = Finished # ts'"
    then show ?thesis using conc_ok_loop ok by blast
  next
    fix repos i ts' assume "p = L_wait repos i" "y = (sh, L_turn, Finished # ts')" "ts = Finished # ts'"
    then show ?thesis using ok by (simp add: conc_ok_def)
  next
    fix r q repos i ts' assume "trigger_recv (sv_trigger (sh_svc sh)) = Some (r, q)" "p = L_wait repos i" "ts = Finished # ts'"
      "y = (sh\<lparr>sh_svc := (sh_svc sh)\<lparr>sv_trigger := q\<rparr>\<rparr>, L_drain repos i [r], Finished # ts')"
    then show ?thesis using ok trigger_recv_ok [OF _ svc] by (simp add: conc_ok_def)
  next
    fix repos i ts' assume "p = L_wait repos i" "y = (sh, L_ended, Finished # ts')" "ts = Finished # ts'"
    then show ?thesis using ok by (simp add: conc_ok_def)
  next
    fix n t sh' assume "p \<noteq> L_ended" "n < length ts" "thread_step pf cf (ts ! n) sh = Some (t, sh')" "y = (sh', p, ts[n := t])"
    then show ?thesis using conc_ok_run [OF ok] by blast
  next
    fix r n assume "(r, n) \<in> set (sv_jobs (sh_svc sh))" "(r, n) \<notin># jobs_of ts" "y = (sh, p, ts @ [Apply_begin r n])"
    then show ?thesis using ok jobs_of_start [of r n "sv_jobs (sh_svc sh)" ts] by (simp add: conc_ok_def uses_def nth_append)
  next
    fix n assume "y = (sh\<lparr>sh_svc := refresh_job pf n (sh_svc sh)\<rparr>, p, ts)"
    then show ?thesis using conc_ok_service [OF ok refresh_job_ok [OF svc]] by (simp add: jobs_kept_same refresh_job_jobs)
  next
    fix site inp rq assume "y = (sh\<lparr>sh_svc := snd (serve pf cf site inp rq (sh_svc sh))\<rparr>, p, ts)"
    then show ?thesis using conc_ok_service [OF ok serve_ok [OF svc] serve_jobs] by simp
  next
    fix w assume "y = (sh\<lparr>sh_svc := (sh_svc sh)\<lparr>world := w\<rparr>\<rparr>, p, ts)"
    then show ?thesis using conc_ok_service [OF ok] svc by (simp add: jobs_kept_same)
  qed (use conc_ok_background [OF ok] activity_background(2) [OF bus] activity_background(3) in blast)+
qed

lemma conc_start_ok: "conc_start pf x \<Longrightarrow> conc_ok pf x"
  by (cases x) (auto simp: conc_start_def conc_ok_def uses_def jobs_of_def locks_ok_def no_locks_def)

interpretation conc_machine: transition_system "conc_start pf" "conc_step pf cf" "conc_ok pf" for pf cf
  by unfold_locales (rule conc_start_ok, assumption, rule conc_step_ok)

section \<open>What the invariant says of two threads\<close>

text \<open>The row in whose clone directory the next piece of the thread works, under the lock.\<close>

fun at_clone :: "thread \<Rightarrow> RepoDB option" where
  "at_clone (Sync_pull repo cfg i start m oldSHA) = Some repo"
| "at_clone (Sync_head repo cfg i start m oldSHA destDir) = Some repo"
| "at_clone (Sync_stacks repo cfg i start m newSHA stacksDir es) = Some repo"
| "at_clone (Apply_pull repoName stackName st repo cfg m) = Some repo"
| "at_clone t = None"

lemma at_clone_has: "at_clone t = Some r \<Longrightarrow> thread_good pf t \<Longrightarrow> merge_ok pf r \<and> (\<exists>m. use_of t = Has (rdb_Name r) m)"
  by (cases t) auto

lemma locks_ok_unique:
  assumes ok: "locks_ok lt (uses ts)" and "n < length ts" "k < length ts" "use_of (ts ! n) = Has r m" "use_of (ts ! k) = Has r m'"
  shows "n = k"
proof (rule ccontr)
  assume nk: "n \<noteq> k"
  obtain us where us: "uses ts = add_mset (use_of (ts ! n)) us" "\<And>t. uses (ts[n := t]) = add_mset (use_of t) us"
    using uses_split [OF assms(2)] by blast
  have in_uses: "use_of t \<in># uses ts" if "t \<in> set ts" for t using that by (simp add: uses_def)
  have "m' = m" using locks_okD(4) [OF ok, of r m] locks_okD(4) [OF ok, of r m'] in_uses [of "ts ! n"] in_uses [of "ts ! k"] assms
    by simp
  have "ts[n := Finished] ! k \<in> set (ts[n := Finished])" using assms(3) by (intro nth_mem) simp
  then have "use_of (ts ! k) \<in># uses (ts[n := Finished])" using nk by (simp add: uses_def)
  then have "Has r m \<in># us" using us(2) [of Finished] assms(5) \<open>m' = m\<close> by simp
  then have "count (uses ts) (Has r m) \<ge> 2" using us(1) assms(4) by (simp add: Suc_le_eq)
  then show False using locks_okD(6) [OF ok, of r m] by simp
qed

text \<open>The jobs of the threads are accepted ones, each with one thread.\<close>

lemma running_job:
  "jobs_of ts \<subseteq># mset js \<Longrightarrow> n < length ts \<Longrightarrow> j \<in> set (job_of (ts ! n)) \<Longrightarrow> j \<in> set js"
  by (drule set_mset_mono) (force simp: jobs_of_def dest: nth_mem)

lemma job_of_single: "j \<in> set (job_of t) \<Longrightarrow> job_of t = [j]"
  by (cases t) auto

lemma jobs_unique:
  assumes ok: "jobs_ok s" and jobs: "jobs_of ts \<subseteq># mset (sv_jobs s)" and k: "k < length ts" "j' \<in> set (job_of (ts ! k))"
    and n: "n < length ts" "j \<in> set (job_of (ts ! n))" and key: "job_key j' = job_key j"
  shows "k = n"
proof (rule ccontr)
  assume kn: "k \<noteq> n"
  have inj: "distinct (sv_jobs s)" "inj_on job_key (set (sv_jobs s))" using ok by (simp_all add: jobs_ok_def distinct_map)
  have "j' = j"
    using inj_onD [OF inj(2) key] running_job [OF jobs k] running_job [OF jobs n] by simp
  then have "jobs_of ts = add_mset j (jobs_of (ts[n := Finished]))" "j \<in> set (job_of (ts[n := Finished] ! k))"
    using concat_update [OF n(1), of job_of Finished] job_of_single [OF n(2)] k kn by (simp_all add: jobs_of_def)
  moreover have "j \<in># jobs_of (ts[n := Finished])"
    using calculation(2) k(1) by (auto simp: jobs_of_def intro: bexI [of _ "ts[n := Finished] ! k"])
  ultimately have "2 \<le> count (jobs_of ts) j" by (simp add: Suc_le_eq)
  also have "\<dots> \<le> count (mset (sv_jobs s)) j" using jobs by (rule mset_subset_eq_count)
  also have "\<dots> \<le> 1" using inj(1) by (cases j) (simp add: distinct_count_atmost_1)
  finally show False by simp
qed

lemma idle_free: "locks_ok lt (uses ts) \<Longrightarrow> set ts = {Finished} \<Longrightarrow> lock_free q lt"
  by (auto simp: locks_ok_def lock_free_def uses_def split: option.split)

lemma not_waiting_steps:
  assumes "t \<noteq> Finished" "\<And>r m. use_of t \<noteq> Wants r m"
  shows "\<exists>x. thread_step pf cf t sh = Some x"
proof -
  have "sync_step pf cf t sh \<noteq> None \<or> apply_thread_step pf cf t sh \<noteq> None"
  proof (cases t)
    case (Sync_stacks repo cfg i start m newSHA stacksDir es)
    then show ?thesis by (cases es) (simp_all add: Let_def)
  qed (use assms in \<open>auto simp: split_def Let_def split: sum.split option.split\<close>)
  then show ?thesis by (auto simp: thread_step_def split: option.split)
qed

text \<open>A goroutine that has not finished can go on, or waits for a lock that another one has which can go on itself.\<close>

lemma no_deadlock:
  assumes "conc_ok pf (sh, p, ts)" and "n < length ts" and "ts ! n \<noteq> Finished"
  shows "(\<exists>x. thread_step pf cf (ts ! n) sh = Some x)
    \<or> (\<exists>r m k. use_of (ts ! n) = Wants r m \<and> k < length ts \<and> use_of (ts ! k) = Has r m
          \<and> (\<exists>x. thread_step pf cf (ts ! k) sh = Some x))"
proof (cases "use_of (ts ! n)")
  case (Wants r m)
  have ok: "locks_ok (sh_locks sh) (uses ts)" using assms(1) by (simp add: conc_ok_def)
  have "Wants r m \<in># uses ts" using assms(2) Wants by (force simp: uses_def in_set_conv_nth)
  then have m: "mget (lt_ids (sh_locks sh)) r = Some m" by (rule locks_okD(3) [OF ok])
  show ?thesis
  proof (cases "lt_locked (sh_locks sh) ! m")
    case True
    then obtain q where q: "Has q m \<in># uses ts" using locks_okD(5) [OF ok locks_okD(1) [OF ok m]] by blast
    then have "q = r" using locks_okD(2) [OF ok locks_okD(4) [OF ok] m] by blast
    then obtain k where k: "k < length ts" "use_of (ts ! k) = Has r m" using q by (force simp: uses_def in_set_conv_nth)
    then have "\<exists>x. thread_step pf cf (ts ! k) sh = Some x" by (intro not_waiting_steps) auto
    then show ?thesis using Wants k by blast
  next
    case False
    then have "mutex_Lock m (sh_locks sh) \<noteq> None" by (simp add: mutex_Lock_def)
    then show ?thesis using Wants by (cases "ts ! n") (auto simp: thread_step_def)
  qed
qed (use not_waiting_steps [OF assms(3)] in auto)

end
