(* ===== verification/Realisation.thy ===== *)
theory Realisation
  imports Concurrency
begin

text \<open>
  The machine of whole turns and whole jobs in \<open>Daemon\<close> and the machine of interleaved pieces in
  \<open>Concurrency\<close>: every coarse step is a run of pieces that nobody interrupts, which the interpretation
  of the locale \<^verbatim>\<open>simulation\<close> turns into a statement about the reachable states.
\<close>

section \<open>Coarse steps are runs\<close>

abbreviation conc_runs :: "'w platform \<Rightarrow> config \<Rightarrow> 'w conc \<Rightarrow> 'w conc \<Rightarrow> bool" where
  "conc_runs pf cf \<equiv> (conc_step pf cf)\<^sup>*\<^sup>*"

text \<open>A thread that runs alone, as a run of the machine.\<close>

lemma thread_conc:
  assumes p: "p \<noteq> L_ended" and n: "n < length ts"
  shows "runs pf cf (t, sh) (t', sh') \<Longrightarrow> conc_runs pf cf (sh, p, ts[n := t]) (sh', p, ts[n := t'])"
proof (induction "(t', sh')" arbitrary: t' sh' rule: rtranclp_induct)
  case (step y)
  obtain u sh1 where y: "y = (u, sh1)" by fastforce
  have "thread_step pf cf (ts[n := u] ! n) sh1 = Some (t', sh')" using step.hyps(2) n by (simp add: y alone_step_def)
  then have "conc_step pf cf (sh1, p, ts[n := u]) (sh', p, ts[n := u, n := t'])"
    by (intro c_run) (simp_all add: p n)
  with step.hyps(3) [OF y] show ?case by simp
qed simp

definition all_free :: "lock_table \<Rightarrow> bool" where
  "all_free lt \<longleftrightarrow> (\<forall>q. lock_free q lt)"

lemma sync_conc:
  assumes "p \<noteq> L_ended" "all_free lt"
  obtains lt' where "all_free lt'"
    "conc_runs pf cf (\<lparr>sh_svc = d, sh_locks = lt\<rparr>, p, Sync_begin repo cfg i # ts)
       (\<lparr>sh_svc = syncRepoFromDB pf cf repo cfg i d, sh_locks = lt'\<rparr>, p, Finished # ts)"
proof -
  obtain lt' where lt': "all_free lt'" and run: "runs pf cf (Sync_begin repo cfg i, \<lparr>sh_svc = d, sh_locks = lt\<rparr>)
      (Finished, \<lparr>sh_svc = syncRepoFromDB pf cf repo cfg i d, sh_locks = lt'\<rparr>)"
    using sync_run [of repo lt pf cf cfg i d] assms(2) by (auto simp: all_free_def)
  show ?thesis using that [OF lt'] thread_conc [OF assms(1) _ run, of 0 "Finished # ts"] by simp
qed

lemma apply_conc:
  assumes p: "p \<noteq> L_ended" and lt: "all_free lt" and job: "(r, n) \<in> set (sv_jobs d)" and ts: "set ts \<subseteq> {Finished}"
  obtains lt' where "all_free lt'"
    "conc_runs pf cf (\<lparr>sh_svc = d, sh_locks = lt\<rparr>, p, ts)
       (\<lparr>sh_svc = apply_job pf cf (r, n) d, sh_locks = lt'\<rparr>, p, ts @ [Finished])"
proof -
  have "jobs_of ts = {#}" using ts by (auto simp: jobs_of_def)
  then have start: "conc_step pf cf (\<lparr>sh_svc = d, sh_locks = lt\<rparr>, p, ts) (\<lparr>sh_svc = d, sh_locks = lt\<rparr>, p, ts @ [Apply_begin r n])"
    using p job by (intro c_apply) simp_all
  obtain lt' where lt': "all_free lt'" and run: "runs pf cf (Apply_begin r n, \<lparr>sh_svc = d, sh_locks = lt\<rparr>)
      (Finished, \<lparr>sh_svc = apply_job pf cf (r, n) d, sh_locks = lt'\<rparr>)"
    using apply_run [of r lt pf cf n d] lt by (auto simp: all_free_def)
  have "conc_runs pf cf (\<lparr>sh_svc = d, sh_locks = lt\<rparr>, p, ts @ [Apply_begin r n])
      (\<lparr>sh_svc = apply_job pf cf (r, n) d, sh_locks = lt'\<rparr>, p, ts @ [Finished])"
    using thread_conc [OF p _ run, of "length ts" "ts @ [Finished]"] by simp
  then show ?thesis by (rule that [OF lt' converse_rtranclp_into_rtranclp [of "conc_step pf cf", OF start]])
qed

text \<open>Pieces of the loop in which no sync begins.\<close>

lemma loop_conc:
  "loop_step pf cf p d = Some (p', t, d') \<Longrightarrow>
     conc_runs pf cf (\<lparr>sh_svc = d', sh_locks = lt\<rparr>, p', t # ts) y \<Longrightarrow>
     conc_runs pf cf (\<lparr>sh_svc = d, sh_locks = lt\<rparr>, p, Finished # ts) y"
proof -
  assume st: "loop_step pf cf p d = Some (p', t, d')"
    and run: "conc_runs pf cf (\<lparr>sh_svc = d', sh_locks = lt\<rparr>, p', t # ts) y"
  have "conc_step pf cf (\<lparr>sh_svc = d, sh_locks = lt\<rparr>, p, Finished # ts) (\<lparr>sh_svc = d', sh_locks = lt\<rparr>, p', t # ts)"
    using c_loop [of pf cf p "\<lparr>sh_svc = d, sh_locks = lt\<rparr>" p' t d' ts] st by simp
  then show ?thesis using run by (rule converse_rtranclp_into_rtranclp)
qed

lemma round_conc:
  assumes "all_free lt"
  shows "\<exists>lt'. all_free lt' \<and> conc_runs pf cf (\<lparr>sh_svc = d, sh_locks = lt\<rparr>, L_round repos icfg i rest, Finished # ts)
    (\<lparr>sh_svc = snd (sync_each pf cf icfg i rest d), sh_locks = lt'\<rparr>,
     if fst (sync_each pf cf icfg i rest d) then L_refresh repos i else L_wait repos i, Finished # ts)"
  using assms
proof (induction rest arbitrary: d lt)
  case Nil
  have "conc_runs pf cf (\<lparr>sh_svc = d, sh_locks = lt\<rparr>, L_round repos icfg i [], Finished # ts)
      (\<lparr>sh_svc = d, sh_locks = lt\<rparr>, L_refresh repos i, Finished # ts)"
    by (rule loop_conc) (simp, simp)
  with Nil show ?case by auto
next
  case (Cons repo rest)
  let ?S = "\<lambda>d lt p. (\<lparr>sh_svc = d, sh_locks = lt\<rparr>, p, Finished # ts)"
  let ?goal = "\<lambda>d' p. \<exists>lt'. all_free lt' \<and> conc_runs pf cf (?S d lt (L_round repos icfg i (repo # rest)))
    (\<lparr>sh_svc = snd (sync_each pf cf icfg i (repo # rest) d), sh_locks = lt'\<rparr>, p, Finished # ts)"
  obtain now d1 where now: "time_Now (pf_os pf) d = (now, d1)" by fastforce
  obtain skip sch where skip: "shouldSkipSync (rdb_Name repo) now (d_sched d1) = (skip, sch)" by fastforce
  let ?d2 = "d1\<lparr>d_sched := sch\<rparr>"
  obtain now' d3 where now': "time_Now (pf_os pf) ?d2 = (now', d3)" by fastforce
  have on: "\<exists>lt'. all_free lt' \<and> conc_runs pf cf (?S d lt (L_round repos icfg i (repo # rest)))
      (\<lparr>sh_svc = snd (sync_each pf cf icfg i rest e), sh_locks = lt'\<rparr>,
       if fst (sync_each pf cf icfg i rest e) then L_refresh repos i else L_wait repos i, Finished # ts)"
    if "conc_runs pf cf (?S d lt (L_round repos icfg i (repo # rest))) (?S e lt1 (L_round repos icfg i rest))" "all_free lt1" for e lt1
    using Cons.IH [OF that(2), of e] rtranclp_trans [OF that(1)] by blast
  consider "pf_ctx_done pf (world d)" | "\<not> pf_ctx_done pf (world d)" "\<not> rdb_Enabled repo"
    | "\<not> pf_ctx_done pf (world d)" "rdb_Enabled repo" skip
    | "\<not> pf_ctx_done pf (world d)" "rdb_Enabled repo" "\<not> skip" by blast
  then show ?case
  proof cases
    case 1
    have "conc_runs pf cf (?S d lt (L_round repos icfg i (repo # rest))) (?S d lt (L_wait repos i))"
      by (rule loop_conc) (simp add: 1, simp)
    with 1 Cons.prems show ?thesis by auto
  next
    case 2
    have "conc_runs pf cf (?S d lt (L_round repos icfg i (repo # rest))) (?S d lt (L_round repos icfg i rest))"
      by (rule loop_conc) (simp add: 2, simp)
    from on [OF this Cons.prems] 2 show ?thesis by simp
  next
    case 3
    have "conc_runs pf cf (?S d lt (L_round repos icfg i (repo # rest))) (?S ?d2 lt (L_round repos icfg i rest))"
      by (rule loop_conc) (simp add: 3 now skip, simp)
    from on [OF this Cons.prems] 3 show ?thesis by (simp add: now skip)
  next
    case 4
    let ?due = "dueForSync (rdb_Name repo) now' (d_sched d3)"
    let ?t = "if ?due then Sync_begin repo icfg i else Finished"
    have due: "conc_runs pf cf (?S d lt (L_round repos icfg i (repo # rest)))
        (\<lparr>sh_svc = d3, sh_locks = lt\<rparr>, L_round repos icfg i rest, ?t # ts)"
      by (rule loop_conc, simp add: 4 now skip, rule loop_conc, simp add: now') simp
    show ?thesis
    proof (cases ?due)
      case True
      obtain lt1 where lt1: "all_free lt1" "conc_runs pf cf
          (\<lparr>sh_svc = d3, sh_locks = lt\<rparr>, L_round repos icfg i rest, Sync_begin repo icfg i # ts)
          (?S (syncRepoFromDB pf cf repo icfg i d3) lt1 (L_round repos icfg i rest))"
        by (rule sync_conc [OF _ Cons.prems, of "L_round repos icfg i rest"]) simp
      have "conc_runs pf cf (?S d lt (L_round repos icfg i (repo # rest)))
          (?S (syncRepoFromDB pf cf repo icfg i d3) lt1 (L_round repos icfg i rest))"
        using due lt1(2) True by (simp add: rtranclp_trans)
      from on [OF this lt1(1)] 4 True show ?thesis by (simp add: now skip now')
    next
      case False
      then have "conc_runs pf cf (?S d lt (L_round repos icfg i (repo # rest))) (?S d3 lt (L_round repos icfg i rest))"
        using due by simp
      from on [OF this Cons.prems] 4 False show ?thesis by (simp add: now skip now')
    qed
  qed
qed

lemma head_conc:
  assumes "all_free lt" "loop_head pf cf d = ((repos, i), t)"
  shows "\<exists>lt'. all_free lt' \<and> conc_runs pf cf (\<lparr>sh_svc = d, sh_locks = lt\<rparr>, L_turn, Finished # ts)
    (\<lparr>sh_svc = t, sh_locks = lt'\<rparr>, L_wait repos i, Finished # ts)"
proof -
  let ?S = "\<lambda>d lt p. (\<lparr>sh_svc = d, sh_locks = lt\<rparr>, p, Finished # ts)"
  obtain listed d1 where 1: "on_db (ListRepos (pf_dt pf)) d = (listed, d1)" by fastforce
  obtain icfg d2 where 2: "loadInfisicalFromDB pf cf d1 = (icfg, d2)" by fastforce
  obtain i' d3 where 3: "on_db loadDefaultInterval d2 = (i', d3)" by fastforce
  let ?repos = "case listed of Inl _ \<Rightarrow> [] | Inr rs \<Rightarrow> rs" and ?d4 = "on_store (SetInfisical (show_infisical icfg)) d3"
  have t: "?repos = repos" "i' = i" "t = doSyncRound pf cf repos icfg i ?d4"
    using assms(2) by (auto simp: loop_head_def 1 2 3 Let_def)
  obtain completed d5 where 5: "sync_each pf cf icfg i repos ?d4 = (completed, d5)" by fastforce
  obtain lt' where lt': "all_free lt'" and r: "conc_runs pf cf (?S ?d4 lt (L_round repos icfg i repos))
      (?S d5 lt' (if completed then L_refresh repos i else L_wait repos i))"
    using round_conc [OF assms(1), of pf cf ?d4 repos icfg i repos ts] by (auto simp: 5)
  have "conc_runs pf cf (?S d5 lt' (if completed then L_refresh repos i else L_wait repos i)) (?S t lt' (L_wait repos i))"
  proof (cases completed)
    case True
    have "conc_runs pf cf (?S d5 lt' (L_refresh repos i)) (?S t lt' (L_wait repos i))"
      by (rule loop_conc) (simp, simp add: t(3) doSyncRound_def 5 True)
    then show ?thesis by (simp add: True)
  qed (simp add: t(3) doSyncRound_def 5)
  with r have r': "conc_runs pf cf (?S ?d4 lt (L_round repos icfg i repos)) (?S t lt' (L_wait repos i))"
    by (rule rtranclp_trans)
  have "conc_runs pf cf (?S d3 lt (L_show repos icfg i)) (?S t lt' (L_wait repos i))" by (rule loop_conc [OF _ r']) simp
  then have "conc_runs pf cf (?S d2 lt (L_interval repos icfg)) (?S t lt' (L_wait repos i))"
    by (rule loop_conc [rotated]) (simp add: 3 t(2))
  then have "conc_runs pf cf (?S d1 lt (L_settings repos)) (?S t lt' (L_wait repos i))"
    by (rule loop_conc [rotated]) (simp add: 2)
  then have "conc_runs pf cf (?S d lt L_turn) (?S t lt' (L_wait repos i))"
    by (rule loop_conc [rotated]) (simp add: 1 t(1))
  with lt' show ?thesis by blast
qed

lemma drain_conc:
  "conc_runs pf cf (\<lparr>sh_svc = d, sh_locks = lt\<rparr>, L_drain repos i q, Finished # ts)
     (\<lparr>sh_svc = d\<lparr>sv_trigger := []\<rparr>, sh_locks = lt\<rparr>, L_load repos i (q @ sv_trigger d), Finished # ts)"
proof (induction "sv_trigger d" arbitrary: d q)
  case Nil
  have "d\<lparr>sv_trigger := sv_trigger d\<rparr> = d" by simp
  then have same: "d\<lparr>sv_trigger := []\<rparr> = d" by (simp only: Nil [symmetric])
  show ?case by (rule loop_conc) (simp add: trigger_recv_def Nil [symmetric], simp add: same Nil [symmetric])
next
  case (Cons r rs)
  have "loop_step pf cf (L_drain repos i q) d = Some (L_drain repos i (q @ [r]), Finished, d\<lparr>sv_trigger := rs\<rparr>)"
    by (simp add: trigger_recv_def Cons.hyps(2) [symmetric])
  then show ?case
    by (rule loop_conc) (use Cons.hyps(1) [of "d\<lparr>sv_trigger := rs\<rparr>" "q @ [r]"] in \<open>simp add: Cons.hyps(2) [symmetric]\<close>)
qed

lemma manual_conc:
  assumes "all_free lt"
  shows "\<exists>lt'. all_free lt' \<and> conc_runs pf cf (\<lparr>sh_svc = d, sh_locks = lt\<rparr>, L_manual i q icfg rest, Finished # ts)
    (\<lparr>sh_svc = fold (sync_triggered pf cf (set q) icfg i) rest d, sh_locks = lt'\<rparr>, L_refresh_manual, Finished # ts)"
  using assms
proof (induction rest arbitrary: d lt)
  case Nil
  have "conc_runs pf cf (\<lparr>sh_svc = d, sh_locks = lt\<rparr>, L_manual i q icfg [], Finished # ts)
      (\<lparr>sh_svc = d, sh_locks = lt\<rparr>, L_refresh_manual, Finished # ts)"
    by (rule loop_conc) (simp, simp)
  with Nil show ?case by auto
next
  case (Cons repo rest)
  let ?S = "\<lambda>d lt p. (\<lparr>sh_svc = d, sh_locks = lt\<rparr>, p, Finished # ts)" and ?e = "sync_triggered pf cf (set q) icfg i repo d"
  have "\<exists>lt1. all_free lt1 \<and> conc_runs pf cf (?S d lt (L_manual i q icfg (repo # rest))) (?S ?e lt1 (L_manual i q icfg rest))"
  proof (cases "rdb_Name repo \<in> set q")
    case True
    let ?d = "on_sched (resetBackoff (rdb_Name repo)) d"
    obtain lt1 where lt1: "all_free lt1" "conc_runs pf cf
        (\<lparr>sh_svc = ?d, sh_locks = lt\<rparr>, L_manual i q icfg rest, Sync_begin repo icfg i # ts)
        (?S (syncRepoFromDB pf cf repo icfg i ?d) lt1 (L_manual i q icfg rest))"
      by (rule sync_conc [OF _ Cons.prems, of "L_manual i q icfg rest"]) simp
    have "conc_runs pf cf (?S d lt (L_manual i q icfg (repo # rest))) (?S ?e lt1 (L_manual i q icfg rest))"
      by (rule loop_conc) (simp add: True, use lt1(2) in \<open>simp add: True sync_triggered_def\<close>)
    with lt1(1) show ?thesis by blast
  next
    case False
    have "conc_runs pf cf (?S d lt (L_manual i q icfg (repo # rest))) (?S ?e lt (L_manual i q icfg rest))"
      by (rule loop_conc) (simp add: False, simp add: sync_triggered_def False)
    with Cons.prems show ?thesis by blast
  qed
  then obtain lt1 where lt1: "all_free lt1"
    "conc_runs pf cf (?S d lt (L_manual i q icfg (repo # rest))) (?S ?e lt1 (L_manual i q icfg rest))" by blast
  from Cons.IH [OF lt1(1), of ?e] rtranclp_trans [OF lt1(2)] show ?case by simp blast
qed

lemma wake_conc:
  assumes "all_free lt" "loop_trigger pf cf repos i d = Some t"
  shows "\<exists>lt'. all_free lt' \<and> conc_runs pf cf (\<lparr>sh_svc = d, sh_locks = lt\<rparr>, L_wait repos i, Finished # ts)
    (\<lparr>sh_svc = t, sh_locks = lt'\<rparr>, L_turn, Finished # ts)"
proof -
  let ?S = "\<lambda>d lt p. (\<lparr>sh_svc = d, sh_locks = lt\<rparr>, p, Finished # ts)" and ?d1 = "d\<lparr>sv_trigger := []\<rparr>"
  obtain r q where q: "sv_trigger d = r # q" and t: "t = manual_round pf cf (sv_trigger d) repos i ?d1"
    using assms(2) by (cases "sv_trigger d") (simp_all add: loop_trigger_all)
  obtain icfg d2 where i: "loadInfisicalFromDB pf cf ?d1 = (icfg, d2)" by fastforce
  let ?d3 = "fold (sync_triggered pf cf (set (sv_trigger d)) icfg i) repos d2"
  obtain lt' where lt': "all_free lt'" and m: "conc_runs pf cf (?S d2 lt (L_manual i (sv_trigger d) icfg repos)) (?S ?d3 lt' L_refresh_manual)"
    using manual_conc [OF assms(1)] by blast
  have "conc_runs pf cf (?S ?d3 lt' L_refresh_manual) (?S t lt' L_turn)"
    by (rule loop_conc) (simp, simp add: t manual_round_def i)
  with m have "conc_runs pf cf (?S d2 lt (L_manual i (sv_trigger d) icfg repos)) (?S t lt' L_turn)" by (rule rtranclp_trans)
  then have load: "conc_runs pf cf (?S ?d1 lt (L_load repos i (sv_trigger d))) (?S t lt' L_turn)"
    by (rule loop_conc [rotated]) (simp add: i)
  have "conc_runs pf cf (?S (d\<lparr>sv_trigger := q\<rparr>) lt (L_drain repos i [r])) (?S ?d1 lt (L_load repos i (sv_trigger d)))"
    using drain_conc [of pf cf "d\<lparr>sv_trigger := q\<rparr>" lt repos i "[r]" ts] by (simp add: q)
  then have "conc_runs pf cf (?S (d\<lparr>sv_trigger := q\<rparr>) lt (L_drain repos i [r])) (?S t lt' L_turn)"
    using load by (rule rtranclp_trans)
  moreover have "conc_step pf cf (?S d lt (L_wait repos i)) (?S (d\<lparr>sv_trigger := q\<rparr>) lt (L_drain repos i [r]))"
    using c_wake [of "\<lparr>sh_svc = d, sh_locks = lt\<rparr>" r q pf cf repos i ts] by (simp add: trigger_recv_def q)
  ultimately show ?thesis using lt' converse_rtranclp_into_rtranclp [of "conc_step pf cf"] by blast
qed

text \<open>
  The coarse machine of \<open>Daemon\<close> and this one: the same service, the loop at the point of the phase, no
  thread on its way and no lock taken.
\<close>

fun point_of :: "loop_phase \<Rightarrow> loop_point" where
  "point_of Turn = L_turn"
| "point_of (Waiting repos i) = L_wait repos i"
| "point_of Ended = L_ended"

lemma point_of_ended [simp]: "point_of ph = L_ended \<longleftrightarrow> ph = Ended"
  by (cases ph) auto

definition realised :: "'w running \<Rightarrow> 'w conc \<Rightarrow> bool" where
  "realised x y \<longleftrightarrow> (\<exists>lt ts. y = (\<lparr>sh_svc = fst x, sh_locks = lt\<rparr>, point_of (snd x), Finished # ts)
     \<and> all_free lt \<and> set ts \<subseteq> {Finished})"

lemma realisedI:
  "conc_runs pf cf x (\<lparr>sh_svc = s, sh_locks = lt\<rparr>, point_of ph, Finished # ts) \<Longrightarrow> all_free lt \<Longrightarrow> set ts \<subseteq> {Finished}
     \<Longrightarrow> \<exists>y. conc_runs pf cf x y \<and> realised (s, ph) y"
  by (rule exI [of _ "(\<lparr>sh_svc = s, sh_locks = lt\<rparr>, point_of ph, Finished # ts)"]) (simp add: realised_def)

lemma daemon_step_realised:
  assumes "realised x y" "daemon_step pf cf x x'"
  shows "\<exists>y'. conc_runs pf cf y y' \<and> realised x' y'"
proof -
  obtain s ph where x: "x = (s, ph)" by fastforce
  obtain lt ts where y: "y = (\<lparr>sh_svc = s, sh_locks = lt\<rparr>, point_of ph, Finished # ts)" and lt: "all_free lt"
    and ts: "set ts \<subseteq> {Finished}"
    using assms(1) by (auto simp: realised_def x)
  have single: "\<exists>y'. conc_runs pf cf y y' \<and> realised (t, ph') y'"
    if "conc_step pf cf y (\<lparr>sh_svc = t, sh_locks = lt\<rparr>, point_of ph', Finished # ts)" for t ph'
    using that lt ts by (intro realisedI [of pf cf y]) (rule r_into_rtranclp)
  show ?thesis using assms(2) unfolding x
  proof (elim daemon_stepE)
    fix repos i t assume "loop_head pf cf s = ((repos, i), t)" "ph = Turn" "x' = (t, Waiting repos i)"
    then show ?thesis using head_conc [OF lt, of pf cf s repos i t ts] ts realisedI [of pf cf y t _ "Waiting repos i"]
      by (auto simp: y)
  next
    fix repos i assume "ph = Waiting repos i" "x' = (s, Turn)"
    then show ?thesis using single [of s Turn] by (simp add: y c_tick)
  next
    fix repos i t assume "loop_trigger pf cf repos i s = Some t" "ph = Waiting repos i" "x' = (t, Turn)"
    then show ?thesis using wake_conc [OF lt, of pf cf repos i s t ts] ts realisedI [of pf cf y t _ Turn]
      by (auto simp: y)
  next
    fix repos i assume "pf_ctx_done pf (world s)" "ph = Waiting repos i" "x' = (s, Ended)"
    then show ?thesis using single [of s Ended] by (simp add: y c_stop)
  next
    fix site inp rq assume h: "ph \<noteq> Ended" and x': "x' = (snd (serve pf cf site inp rq s), ph)"
    show ?thesis unfolding x' by (rule single) (use c_request [of "point_of ph" pf cf "\<lparr>sh_svc = s, sh_locks = lt\<rparr>"] h in \<open>simp add: y\<close>)
  next
    fix job assume h: "ph \<noteq> Ended" "job \<in> set (sv_jobs s)" and x': "x' = (apply_job pf cf job s, ph)"
    obtain lt' where r: "all_free lt'"
      "conc_runs pf cf y (\<lparr>sh_svc = apply_job pf cf job s, sh_locks = lt'\<rparr>, point_of ph, Finished # ts @ [Finished])"
      by (rule apply_conc [of "point_of ph" lt "fst job" "snd job" s "Finished # ts" pf cf]) (use h lt ts in \<open>simp_all add: y\<close>)
    show ?thesis unfolding x' using ts by (intro realisedI [OF r(2,1)]) simp
  next
    fix n assume h: "ph \<noteq> Ended" "n \<in> set (sv_refreshes s)" and x': "x' = (refresh_job pf n s, ph)"
    show ?thesis unfolding x' by (rule single) (use c_refreshed [of "point_of ph" n "\<lparr>sh_svc = s, sh_locks = lt\<rparr>"] h in \<open>simp add: y\<close>)
  next
    fix ch enc assume h: "ph \<noteq> Ended" "ch \<in> set (bus_subs (d_bus s))" and x': "x' = (snd (activity_forward enc ch s), ph)"
    show ?thesis unfolding x' by (rule single) (use c_stream [of "point_of ph" ch "\<lparr>sh_svc = s, sh_locks = lt\<rparr>"] h in \<open>simp add: y\<close>)
  next
    fix ch t assume h: "ph \<noteq> Ended" "ch \<in> set (bus_subs (d_bus s))" "activity_close ch s = Some t" and x': "x' = (t, ph)"
    show ?thesis unfolding x' by (rule single) (use c_leave [of "point_of ph" ch "\<lparr>sh_svc = s, sh_locks = lt\<rparr>" t] h in \<open>simp add: y\<close>)
  next
    fix w assume h: "ph \<noteq> Ended" and x': "x' = (s\<lparr>world := w\<rparr>, ph)"
    show ?thesis unfolding x' by (rule single) (use c_world [of "point_of ph" pf cf "\<lparr>sh_svc = s, sh_locks = lt\<rparr>"] h in \<open>simp add: y\<close>)
  qed
qed

interpretation embedding: simulation "started pf cf" "daemon_step pf cf" "running_ok pf"
    "conc_start pf" "conc_step pf cf" "conc_ok pf" realised for pf cf
proof unfold_locales
  fix x assume "started pf cf x"
  then have "service_ok pf (fst x)" "snd x = Turn"
    using daemon_machine.initial_invariant [of pf cf x] by (simp_all add: running_ok_def started_def)
  then show "\<exists>y. conc_start pf y \<and> realised x y"
    by (intro exI [of _ "(\<lparr>sh_svc = fst x, sh_locks = no_locks\<rparr>, L_turn, [Finished])"])
      (simp add: conc_start_def realised_def all_free_def lock_free_def no_locks_def)
qed (rule daemon_step_realised)

section \<open>Property\<close>



end
