(* ===== verification/Progress.thy ===== *)
theory Progress
  imports Realisation
begin

text \<open>
  What becomes of the goroutines of \<open>Concurrency\<close>: pieces run out, the program can come to rest from
  every reachable state, and a schedule in which a sync and a callback meet in one clone; with the
  properties of the interleaved machine.
\<close>

section \<open>Coming to rest\<close>

text \<open>
  The pieces the loop has left until it waits or has ended. Draining is the one piece that repeats: it
  goes on as long as the queue, here its length \<open>q\<close>, is not empty.
\<close>

fun loop_left :: "nat \<Rightarrow> loop_point \<Rightarrow> nat \<times> nat" where
  "loop_left q (L_drain repos i triggered) = (10, q)"
| "loop_left q (L_load repos i triggered) = (9, 0)"
| "loop_left q (L_manual i triggered icfg rest) = (8, length rest)"
| "loop_left q L_turn = (6, 0)"
| "loop_left q (L_settings repos) = (5, 0)"
| "loop_left q (L_interval repos icfg) = (4, 0)"
| "loop_left q (L_show repos icfg i) = (3, 0)"
| "loop_left q (L_round repos icfg i rest) = (2, 2 * length rest)"
| "loop_left q (L_due repos icfg i repo rest) = (2, Suc (2 * length rest))"
| "loop_left q (L_refresh repos i) = (1, 0)"
| "loop_left q L_refresh_manual = (7, 0)"
| "loop_left q p = (0, 0)"

fun draining :: "loop_point \<Rightarrow> bool" where
  "draining (L_drain repos i triggered) = True"
| "draining p = False"

lemma loop_step_shorter:
  "loop_step pf cf p s = Some (p', t, s') \<Longrightarrow> (loop_left (length (sv_trigger s')) p', loop_left (length (sv_trigger s)) p) \<in> shorter"
  by (cases "(pf, cf, p, s)" rule: loop_step.cases)
    (auto simp: shorter_def trigger_recv_def split_def Let_def
      split: option.splits if_splits list.splits)

lemma loop_step_shorter_apart:
  "loop_step pf cf p s = Some (p', t, s') \<Longrightarrow> \<not> (draining p \<and> draining p') \<Longrightarrow> (loop_left 0 p', loop_left 0 p) \<in> shorter"
  by (cases "(pf, cf, p, s)" rule: loop_step.cases)
    (auto simp: shorter_def trigger_recv_def split_def Let_def split: option.splits if_splits list.splits)

text \<open>One piece of one thread makes the work that is left smaller.\<close>

lemma piece_mult:
  assumes "n < length ts" "thread_step pf cf (ts ! n) sh = Some (t, sh')"
  shows "(image_mset work_left (mset (ts[n := t])), image_mset work_left (mset ts)) \<in> mult shorter"
proof -
  let ?K = "image_mset work_left (mset ts - {#ts ! n#})"
  have "ts ! n \<in># mset ts" using assms(1) by simp
  then have "mset ts = add_mset (ts ! n) (mset ts - {#ts ! n#})" by simp
  then have "image_mset work_left (mset ts) = add_mset (work_left (ts ! n)) ?K" by (metis image_mset_add_mset)
  moreover have "image_mset work_left (mset (ts[n := t])) = ?K + {#work_left t#}" using assms(1) by (simp add: mset_update)
  ultimately have "(image_mset work_left (mset (ts[n := t])), image_mset work_left (mset ts)) \<in> mult1 shorter"
    using thread_step_shorter [OF assms(2)] by (intro mult1I) auto
  then show ?thesis by (simp add: mult_def)
qed

lemma background_trigger: "background s t \<Longrightarrow> sv_trigger t = sv_trigger s"
  using service_more [of t s] by (simp add: background_def)

lemma thread_step_trigger: "thread_step pf cf t sh = Some (t', sh') \<Longrightarrow> sv_trigger (sh_svc sh') = sv_trigger (sh_svc sh)"
  by (erule thread_step_background) (simp_all add: background_trigger job_done_def)

lemma finish_run:
  "conc_ok pf (sh, p, ts) \<Longrightarrow> p \<noteq> L_ended \<Longrightarrow>
     \<exists>sh' ts'. conc_runs pf cf (sh, p, ts) (sh', p, ts') \<and> set ts' = {Finished} \<and> sv_trigger (sh_svc sh') = sv_trigger (sh_svc sh)"
proof (induction ts arbitrary: sh rule: wf_induct_rule [OF wf_inv_image [OF wf_mult [OF wf_shorter], of "\<lambda>ts. image_mset work_left (mset ts)"]])
  case (1 ts)
  show ?case
  proof (cases "set ts \<subseteq> {Finished}")
    case True
    moreover have "ts \<noteq> []" using "1.prems"(1) by (simp add: conc_ok_def)
    ultimately have "set ts = {Finished}" by (cases ts) auto
    then show ?thesis by (intro exI [of _ sh] exI [of _ ts]) simp
  next
    case False
    then obtain n where "n < length ts" "ts ! n \<noteq> Finished" by (metis in_set_conv_nth insertI1 subsetI)
    then obtain k t sh' where k: "k < length ts" "thread_step pf cf (ts ! k) sh = Some (t, sh')"
      using no_deadlock [OF "1.prems"(1), of n cf] by auto
    have step: "conc_step pf cf (sh, p, ts) (sh', p, ts[k := t])" using "1.prems"(2) k by (rule c_run)
    have "conc_ok pf (sh', p, ts[k := t])" using conc_ok_run [OF "1.prems" k] .
    then obtain sh2 ts2 where r: "conc_runs pf cf (sh', p, ts[k := t]) (sh2, p, ts2)" "set ts2 = {Finished}"
      "sv_trigger (sh_svc sh2) = sv_trigger (sh_svc sh')"
      using "1.IH" [of "ts[k := t]" sh'] piece_mult [OF k] "1.prems"(2) by (auto simp: in_inv_image)
    show ?thesis
      using converse_rtranclp_into_rtranclp [of "conc_step pf cf", OF step r(1)] r(2,3) thread_step_trigger [OF k(2)] by auto
  qed
qed

lemma loop_goes_on:
  "p \<noteq> L_ended \<Longrightarrow> (\<And>repos i. p \<noteq> L_wait repos i) \<Longrightarrow> \<exists>p' t s'. loop_step pf cf p s = Some (p', t, s') \<and> p' \<noteq> L_ended"
  by (cases "(pf, cf, p, s)" rule: loop_step.cases) (auto simp: split_def Let_def split: option.split)

lemma rest_run:
  "conc_ok pf (sh, p, ts) \<Longrightarrow> p \<noteq> L_ended \<Longrightarrow>
     \<exists>sh' repos i ts'. conc_runs pf cf (sh, p, ts) (sh', L_wait repos i, ts') \<and> set ts' = {Finished}"
proof (induction "loop_left (length (sv_trigger (sh_svc sh))) p" arbitrary: sh p ts rule: wf_induct_rule [OF wf_shorter])
  case 1
  obtain sh1 ts1 where r: "conc_runs pf cf (sh, p, ts) (sh1, p, ts1)" "set ts1 = {Finished}"
    and q: "sv_trigger (sh_svc sh1) = sv_trigger (sh_svc sh)"
    using finish_run [OF "1.prems"] by blast
  then obtain us where ts1: "ts1 = Finished # us" by (cases ts1) auto
  show ?case
  proof (cases "\<exists>repos i. p = L_wait repos i")
    case True
    then show ?thesis using r by blast
  next
    case False
    then obtain p' t s' where st: "loop_step pf cf p (sh_svc sh1) = Some (p', t, s')" "p' \<noteq> L_ended"
      using loop_goes_on [OF "1.prems"(2)] by blast
    have ok: "conc_ok pf (sh1, p, Finished # us)"
      using conc_machine.run_invariant [OF r(1) "1.prems"(1)] by (simp add: ts1)
    have "conc_ok pf (sh1\<lparr>sh_svc := s'\<rparr>, p', t # us)" using conc_ok_loop [OF ok st(1)] .
    moreover have "(loop_left (length (sv_trigger (sh_svc (sh1\<lparr>sh_svc := s'\<rparr>)))) p', loop_left (length (sv_trigger (sh_svc sh))) p) \<in> shorter"
      using loop_step_shorter [OF st(1)] by (simp add: q)
    ultimately obtain sh2 repos i ts2 where r2: "conc_runs pf cf (sh1\<lparr>sh_svc := s'\<rparr>, p', t # us) (sh2, L_wait repos i, ts2)" "set ts2 = {Finished}"
      using "1.hyps" st(2) by blast
    have "conc_step pf cf (sh1, p, ts1) (sh1\<lparr>sh_svc := s'\<rparr>, p', t # us)" unfolding ts1 using st(1) by (rule c_loop)
    then have "conc_runs pf cf (sh1, p, ts1) (sh2, L_wait repos i, ts2)"
      using r2(1) by (rule converse_rtranclp_into_rtranclp)
    with r(1) have "conc_runs pf cf (sh, p, ts) (sh2, L_wait repos i, ts2)" by (rule rtranclp_trans)
    with r2(2) show ?thesis by blast
  qed
qed

text \<open>From there the queued syncs, the accepted apply jobs and the pending refreshes can all be served.\<close>

lemma refresh_job_parts:
  "sv_trigger (refresh_job pf n s) = sv_trigger s" "sv_jobs (refresh_job pf n s) = sv_jobs s"
  "sv_refreshes (refresh_job pf n s) = remove1 n (sv_refreshes s)"
  using service_more [of "refreshContainerState pf n s" s] refreshContainerState_background [of s pf n]
  by (simp_all add: refresh_job_def background_def Let_def)

lemma apply_job_parts:
  "sv_trigger (apply_job pf cf j s) = sv_trigger s" "sv_refreshes (apply_job pf cf j s) = sv_refreshes s"
  "sv_jobs (apply_job pf cf j s) = remove1 j (sv_jobs s)"
  using service_more [of "onApply pf cf (fst j) (snd j) s" s] onApply_background [of s pf cf "fst j" "snd j"]
  by (simp_all add: apply_job_def job_done_def background_def)

lemma serve_queue:
  assumes "all_free lt" "set ts = {Finished}"
  shows "\<exists>s' lt' repos' i'. conc_runs pf cf (\<lparr>sh_svc = s, sh_locks = lt\<rparr>, L_wait repos i, ts)
    (\<lparr>sh_svc = s', sh_locks = lt'\<rparr>, L_wait repos' i', ts) \<and> all_free lt' \<and> sv_trigger s' = []"
proof (cases "sv_trigger s = []")
  case True
  then show ?thesis using assms(1) by blast
next
  case False
  obtain us where ts: "ts = Finished # us" using assms(2) by (cases ts) auto
  let ?t = "manual_round pf cf (sv_trigger s) repos i (s\<lparr>sv_trigger := []\<rparr>)"
  have "loop_trigger pf cf repos i s = Some ?t" using False by (simp add: loop_trigger_all)
  then obtain lt1 where w: "all_free lt1" "conc_runs pf cf (\<lparr>sh_svc = s, sh_locks = lt\<rparr>, L_wait repos i, ts)
      (\<lparr>sh_svc = ?t, sh_locks = lt1\<rparr>, L_turn, ts)"
    using wake_conc [OF assms(1), of pf cf repos i s ?t us] by (auto simp: ts)
  obtain repos' i' s' where h: "loop_head pf cf ?t = ((repos', i'), s')" by (metis prod.exhaust)
  then obtain lt2 where h2: "all_free lt2" "conc_runs pf cf (\<lparr>sh_svc = ?t, sh_locks = lt1\<rparr>, L_turn, ts)
      (\<lparr>sh_svc = s', sh_locks = lt2\<rparr>, L_wait repos' i', ts)"
    using head_conc [OF w(1) h, of us] by (auto simp: ts)
  have "sv_trigger s' = sv_trigger ?t" using background_trigger [OF loop_head_background [of ?t pf cf]] h by simp
  also have "\<dots> = []" by (simp add: background_trigger [OF manual_round_background])
  finally show ?thesis using rtranclp_trans [OF w(2) h2(2)] h2(1) by blast
qed

lemma serve_jobs_run:
  "all_free lt \<Longrightarrow> set ts = {Finished} \<Longrightarrow> p \<noteq> L_ended \<Longrightarrow>
     \<exists>s' lt' ts'. conc_runs pf cf (\<lparr>sh_svc = s, sh_locks = lt\<rparr>, p, ts) (\<lparr>sh_svc = s', sh_locks = lt'\<rparr>, p, ts')
       \<and> all_free lt' \<and> set ts' = {Finished} \<and> sv_jobs s' = [] \<and> sv_trigger s' = sv_trigger s \<and> sv_refreshes s' = sv_refreshes s"
proof (induction "length (sv_jobs s)" arbitrary: s lt ts)
  case 0
  then show ?case by (intro exI [of _ s] exI [of _ lt] exI [of _ ts]) simp
next
  case (Suc n)
  then obtain j js where j: "sv_jobs s = j # js" by (cases "sv_jobs s") auto
  let ?s = "apply_job pf cf j s"
  obtain lt1 where r: "all_free lt1" "conc_runs pf cf (\<lparr>sh_svc = s, sh_locks = lt\<rparr>, p, ts) (\<lparr>sh_svc = ?s, sh_locks = lt1\<rparr>, p, ts @ [Finished])"
    by (rule apply_conc [OF Suc.prems(3,1), of "fst j" "snd j" s ts pf cf]) (use j Suc.prems(2) in simp_all)
  have "n = length (sv_jobs ?s)" using Suc.hyps(2) j by (simp add: apply_job_parts)
  from Suc.hyps(1) [OF this r(1) _ Suc.prems(3), of "ts @ [Finished]"] Suc.prems(2) obtain s' lt' ts' where
    "conc_runs pf cf (\<lparr>sh_svc = ?s, sh_locks = lt1\<rparr>, p, ts @ [Finished]) (\<lparr>sh_svc = s', sh_locks = lt'\<rparr>, p, ts')"
    "all_free lt' \<and> set ts' = {Finished} \<and> sv_jobs s' = [] \<and> sv_trigger s' = sv_trigger s \<and> sv_refreshes s' = sv_refreshes s"
    by (auto simp: apply_job_parts)
  with rtranclp_trans [OF r(2)] show ?case by blast
qed

lemma serve_refreshes_run:
  "p \<noteq> L_ended \<Longrightarrow> \<exists>s'. conc_runs pf cf (\<lparr>sh_svc = s, sh_locks = lt\<rparr>, p, ts) (\<lparr>sh_svc = s', sh_locks = lt\<rparr>, p, ts)
     \<and> sv_refreshes s' = [] \<and> sv_jobs s' = sv_jobs s \<and> sv_trigger s' = sv_trigger s"
proof (induction "length (sv_refreshes s)" arbitrary: s)
  case 0
  then show ?case by (intro exI [of _ s]) simp
next
  case (Suc n)
  then obtain c cs where c: "sv_refreshes s = c # cs" by (cases "sv_refreshes s") auto
  let ?s = "refresh_job pf c s"
  have st: "conc_step pf cf (\<lparr>sh_svc = s, sh_locks = lt\<rparr>, p, ts) (\<lparr>sh_svc = ?s, sh_locks = lt\<rparr>, p, ts)"
    using c_refreshed [of p c "\<lparr>sh_svc = s, sh_locks = lt\<rparr>" pf cf ts] Suc.prems c by simp
  have "n = length (sv_refreshes ?s)" using Suc.hyps(2) c by (simp add: refresh_job_parts)
  from Suc.hyps(1) [OF this Suc.prems] obtain s' where
    "conc_runs pf cf (\<lparr>sh_svc = ?s, sh_locks = lt\<rparr>, p, ts) (\<lparr>sh_svc = s', sh_locks = lt\<rparr>, p, ts)"
    "sv_refreshes s' = [] \<and> sv_jobs s' = sv_jobs s \<and> sv_trigger s' = sv_trigger s"
    by (auto simp: refresh_job_parts)
  then show ?case using converse_rtranclp_into_rtranclp [of "conc_step pf cf", OF st] by blast
qed

lemma quiet_run:
  assumes ok: "conc_ok pf (sh, p, ts)" and p: "p \<noteq> L_ended"
  shows "\<exists>s lt repos i ts'. conc_runs pf cf (sh, p, ts) (\<lparr>sh_svc = s, sh_locks = lt\<rparr>, L_wait repos i, ts')
    \<and> all_free lt \<and> set ts' = {Finished} \<and> sv_trigger s = [] \<and> sv_jobs s = [] \<and> sv_refreshes s = []"
proof -
  obtain s0 lt0 repos0 i0 ts0 where r0: "conc_runs pf cf (sh, p, ts) (\<lparr>sh_svc = s0, sh_locks = lt0\<rparr>, L_wait repos0 i0, ts0)" "set ts0 = {Finished}"
    using rest_run [OF ok p, of cf] by (metis shared.cases)
  have "locks_ok lt0 (uses ts0)" using conc_machine.run_invariant [OF r0(1) ok] by (simp add: conc_ok_def)
  then have "all_free lt0" using idle_free [OF _ r0(2)] by (simp add: all_free_def)
  from serve_queue [OF this r0(2), of pf cf s0 repos0 i0] obtain s1 lt1 repos i where
    r1: "conc_runs pf cf (\<lparr>sh_svc = s0, sh_locks = lt0\<rparr>, L_wait repos0 i0, ts0) (\<lparr>sh_svc = s1, sh_locks = lt1\<rparr>, L_wait repos i, ts0)"
    "all_free lt1" "sv_trigger s1 = []" by blast
  obtain s2 lt2 ts2 where
    r2: "conc_runs pf cf (\<lparr>sh_svc = s1, sh_locks = lt1\<rparr>, L_wait repos i, ts0) (\<lparr>sh_svc = s2, sh_locks = lt2\<rparr>, L_wait repos i, ts2)"
    "all_free lt2" "set ts2 = {Finished}" "sv_jobs s2 = []" "sv_trigger s2 = sv_trigger s1"
    using serve_jobs_run [OF r1(2) r0(2), of "L_wait repos i" pf cf s1] by auto
  obtain s3 where
    r3: "conc_runs pf cf (\<lparr>sh_svc = s2, sh_locks = lt2\<rparr>, L_wait repos i, ts2) (\<lparr>sh_svc = s3, sh_locks = lt2\<rparr>, L_wait repos i, ts2)"
    "sv_refreshes s3 = []" "sv_jobs s3 = sv_jobs s2" "sv_trigger s3 = sv_trigger s2"
    using serve_refreshes_run [of "L_wait repos i" pf cf s2 lt2 ts2] by auto
  have "conc_runs pf cf (sh, p, ts) (\<lparr>sh_svc = s3, sh_locks = lt2\<rparr>, L_wait repos i, ts2)"
    using r0(1) r1(1) r2(1) r3(1) by (meson rtranclp_trans)
  with r1(3) r2(2-5) r3(2-4) show ?thesis by (intro exI conjI) simp_all
qed

section \<open>A sync and a callback meet\<close>

text \<open>The loop by itself up to the next call of a sync, with at most \<open>k\<close> pieces.\<close>

fun loop_call :: "nat \<Rightarrow> 'w platform \<Rightarrow> config \<Rightarrow> loop_point \<Rightarrow> 'w service \<Rightarrow> (loop_point \<times> thread \<times> 'w service) option" where
  "loop_call 0 pf cf p s = None"
| "loop_call (Suc k) pf cf p s =
     (case loop_step pf cf p s of
        None \<Rightarrow> None
      | Some (p', t, s') \<Rightarrow> (case t of Finished \<Rightarrow> loop_call k pf cf p' s' | _ \<Rightarrow> Some (p', t, s')))"

lemma loop_call_conc:
  "loop_call k pf cf p s = Some (p', t, s') \<Longrightarrow>
     conc_runs pf cf (\<lparr>sh_svc = s, sh_locks = lt\<rparr>, p, Finished # ts) (\<lparr>sh_svc = s', sh_locks = lt\<rparr>, p', t # ts)"
proof (induction k arbitrary: p s)
  case (Suc k)
  obtain p1 t1 s1 where st: "loop_step pf cf p s = Some (p1, t1, s1)"
    using Suc.prems by (auto split: option.splits)
  show ?case
  proof (cases "t1 = Finished")
    case True
    then have "loop_call k pf cf p1 s1 = Some (p', t, s')" using Suc.prems st by simp
    then show ?thesis using Suc.IH loop_conc [OF st] True by blast
  next
    case False
    then have "p1 = p' \<and> t1 = t \<and> s1 = s'" using Suc.prems st by (cases t1) auto
    then show ?thesis using loop_conc [OF st] by blast
  qed
qed simp

lemma system_step:
  "reach (conc_start pf) (conc_step pf cf) (sh, p, ts) \<Longrightarrow> p \<noteq> L_ended \<Longrightarrow> n < length ts \<Longrightarrow>
     thread_step pf cf (ts ! n) sh = Some (t, sh') \<Longrightarrow> reach (conc_start pf) (conc_step pf cf) (sh', p, ts[n := t])"
  by (rule reach_step, assumption, rule c_run)

text \<open>
  The loop is about to sync a repository whose lock is free, and a callback for one of its stacks has
  been accepted: the callback may run up to \<^verbatim>\<open>docker compose\<close> first, and then the sync up to its pull.
\<close>

lemma overlap:
  assumes r0: "reach (conc_start pf) (conc_step pf cf) (\<lparr>sh_svc = s, sh_locks = lt\<rparr>, p, Sync_begin row icfg i # ts)"
    and lt: "lock_free r lt" and job: "(r, n) \<in> set (sv_jobs s)" "(r, n) \<notin># jobs_of ts"
    and st: "GetStack (d_store s) r n = Some st" and row: "fst (GetRepoByName (pf_dt pf) r (d_db s)) = Inr row2" and name: "rdb_Name row = r"
  shows "\<exists>sh cfg start m old. reach (conc_start pf) (conc_step pf cf)
    (sh, p, Sync_pull row icfg i start m old # ts @ [Apply_compose r n st cfg])"
proof -
  let ?R = "reach (conc_start pf) (conc_step pf cf)" and ?S = "Sync_begin row icfg i" and ?k = "Suc (length ts)"
  have p: "p \<noteq> L_ended" using conc_machine.reach_invariant [OF r0] by (simp add: conc_ok_def)
  obtain m lt1 where l: "repoLock r lt = (m, lt1)" by fastforce
  obtain lt2 where lt2: "mutex_Lock m lt1 = Some lt2" "lock_free r (mutex_Unlock m lt2)"
    "repoLock r (mutex_Unlock m lt2) = (m, mutex_Unlock m lt2)"
    using repoLock_free [OF lt l] lt by blast
  obtain lt3 where lt3: "mutex_Lock m (mutex_Unlock m lt2) = Some lt3" using repoLock_free [OF lt2(2,3)] by blast
  have "(r, n) \<notin># jobs_of (?S # ts)" using job(2) by (simp add: jobs_of_def)
  then have 1: "?R (\<lparr>sh_svc = s, sh_locks = lt\<rparr>, p, ?S # ts @ [Apply_begin r n])"
    using reach_step [OF r0 c_apply [OF p]] job(1) by simp
  have on: "?R (sh', p, ?S # ts @ [t'])" if "?R (sh, p, ?S # ts @ [t])" "thread_step pf cf t sh = Some (t', sh')" for sh t sh' t'
    using system_step [OF that(1) p, of ?k t' sh'] that(2) by (simp add: nth_append)
  obtain cfg s1 where "thread_step pf cf (Apply_begin r n) \<lparr>sh_svc = s, sh_locks = lt\<rparr>
      = Some (Apply_lock r n st row2 cfg m, \<lparr>sh_svc = s1, sh_locks = lt1\<rparr>)"
    using st row by (simp add: thread_step_def split_def Let_def frame_simps l)
  with 1 have "?R (\<lparr>sh_svc = s1, sh_locks = lt1\<rparr>, p, ?S # ts @ [Apply_lock r n st row2 cfg m])" by (rule on)
  then have 2: "?R (\<lparr>sh_svc = s1, sh_locks = lt2\<rparr>, p, ?S # ts @ [Apply_pull r n st row2 cfg m])"
    by (rule on) (simp add: thread_step_def lt2)
  obtain res s2 where g: "gitSyncToDisk pf cf row2 s1 = (res, s2)" by fastforce
  let ?ok = "case res of Inl _ \<Rightarrow> False | Inr _ \<Rightarrow> True"
  have "?R (\<lparr>sh_svc = s2, sh_locks = lt2\<rparr>, p, ?S # ts @ [Apply_unlock r n st cfg m ?ok])"
    by (rule on [OF 2]) (simp add: thread_step_def g)
  then have 3: "?R (\<lparr>sh_svc = s2, sh_locks = mutex_Unlock m lt2\<rparr>, p, ?S # ts @ [Apply_report r n st cfg ?ok])"
    by (rule on) (simp add: thread_step_def)
  obtain s3 where 4: "?R (\<lparr>sh_svc = s3, sh_locks = mutex_Unlock m lt2\<rparr>, p, ?S # ts @ [Apply_compose r n st cfg])"
    using on [OF 3] by (simp add: thread_step_def)
  have first: "?R (sh', p, t' # us)" if "?R (sh, p, t # us)" "thread_step pf cf t sh = Some (t', sh')" for sh t sh' t' us
    using system_step [OF that(1) p, of 0 t' sh'] that(2) by simp
  obtain start s4 where t: "time_Now (pf_os pf) s3 = (start, s4)" by fastforce
  obtain s5 where 5: "?R (\<lparr>sh_svc = s5, sh_locks = mutex_Unlock m lt2\<rparr>, p, Sync_lock row icfg i start m # ts @ [Apply_compose r n st cfg])"
    using first [OF 4] by (simp add: thread_step_def t name lt2)
  then show ?thesis using first [OF 5] by (simp add: thread_step_def lt3) blast
qed

section \<open>Properties\<close>

text \<open>A service that has accepted one request to apply a stack.\<close>

definition busy_service :: "(string \<times> string) list service" where
  "busy_service = snd (handleApplyStack ''dockers'' ''plex'' (demo_service\<lparr>d_db := bt_database demo_boot,
     d_store := UpdateStack (blank_stack ''/repos/dockers/plex'' ''plex'' ''dockers'') store_New\<rparr>))"

lemma busy_service_ok: "service_ok boot_pf busy_service"
proof -
  have "store_ok (UpdateStack (blank_stack ''/repos/dockers/plex'' ''plex'' ''dockers'') store_New)"
    using store_ok_steps [OF store_machine.initial_invariant [OF refl] steps_UpdateStack [OF rtranclp.rtrancl_refl]] .
  moreover have "bus_ok NewActivityBus" by (rule bus_machine.initial_invariant) simp
  ultimately have "service_ok boot_pf (demo_service\<lparr>d_db := bt_database demo_boot,
      d_store := UpdateStack (blank_stack ''/repos/dockers/plex'' ''plex'' ''dockers'') store_New\<rparr>)"
    using demo_database(1) by (simp add: service_ok_def demo_service_def database_ok_def jobs_ok_def)
  then show ?thesis unfolding busy_service_def by (rule handleApplyStack_ok)
qed

lemma busy_job: "(''dockers'', ''plex'') \<in> set (sv_jobs busy_service)"
  by code_simp

lemma busy_call:
  "case loop_call 6 boot_pf boot_cf L_turn busy_service of
     Some (p, Sync_begin row icfg i, s) \<Rightarrow> rdb_Name row = ''dockers'' \<and> sv_jobs s = [(''dockers'', ''plex'')]
       \<and> GetStack (d_store s) ''dockers'' ''plex'' \<noteq> None
       \<and> (case fst (GetRepoByName (pf_dt boot_pf) ''dockers'' (d_db s)) of Inl _ \<Rightarrow> False | Inr _ \<Rightarrow> True)
   | _ \<Rightarrow> False"
  by code_simp

text \<open>A turn of its loop, up to the first sync.\<close>

lemma busy_turn:
  obtains s p row icfg i st row2 where
    "reach (conc_start boot_pf) (conc_step boot_pf boot_cf) (\<lparr>sh_svc = s, sh_locks = no_locks\<rparr>, p, [Sync_begin row icfg i])"
    "rdb_Name row = ''dockers''" "(''dockers'', ''plex'') \<in> set (sv_jobs s)" "GetStack (d_store s) ''dockers'' ''plex'' = Some st"
    "fst (GetRepoByName (pf_dt boot_pf) ''dockers'' (d_db s)) = Inr row2"
proof -
  obtain p row icfg i s where c: "loop_call 6 boot_pf boot_cf L_turn busy_service = Some (p, Sync_begin row icfg i, s)"
      "rdb_Name row = ''dockers''" "sv_jobs s = [(''dockers'', ''plex'')]" "GetStack (d_store s) ''dockers'' ''plex'' \<noteq> None"
      "case fst (GetRepoByName (pf_dt boot_pf) ''dockers'' (d_db s)) of Inl _ \<Rightarrow> False | Inr _ \<Rightarrow> True"
  proof (cases "loop_call 6 boot_pf boot_cf L_turn busy_service")
    case (Some x)
    then show ?thesis using busy_call that by (cases x; cases "fst (snd x)") simp_all
  qed (use busy_call in simp)
  have "reach (conc_start boot_pf) (conc_step boot_pf boot_cf) (\<lparr>sh_svc = busy_service, sh_locks = no_locks\<rparr>, L_turn, [Finished])"
    by (rule reach_init) (simp add: conc_start_def busy_service_ok)
  then have r: "reach (conc_start boot_pf) (conc_step boot_pf boot_cf)
      (\<lparr>sh_svc = s, sh_locks = no_locks\<rparr>, p, [Sync_begin row icfg i])"
    using loop_call_conc [OF c(1)] by (rule reach_run)
  obtain st where st: "GetStack (d_store s) ''dockers'' ''plex'' = Some st" using c(4) by blast
  obtain row2 where row2: "fst (GetRepoByName (pf_dt boot_pf) ''dockers'' (d_db s)) = Inr row2"
    using c(5) by (auto split: sum.splits)
  show ?thesis by (rule that [OF r c(2) _ st row2]) (simp add: c(3))
qed

lemma busy_run:
  obtains sh p st cfg row icfg i start m old where "rdb_Name row = ''dockers''"
    "reach (conc_start boot_pf) (conc_step boot_pf boot_cf)
       (sh, p, [Sync_pull row icfg i start m old, Apply_compose ''dockers'' ''plex'' st cfg])"
proof -
  obtain s p row icfg i st row2 where t:
    "reach (conc_start boot_pf) (conc_step boot_pf boot_cf) (\<lparr>sh_svc = s, sh_locks = no_locks\<rparr>, p, [Sync_begin row icfg i])"
    "rdb_Name row = ''dockers''" "(''dockers'', ''plex'') \<in> set (sv_jobs s)" "GetStack (d_store s) ''dockers'' ''plex'' = Some st"
    "fst (GetRepoByName (pf_dt boot_pf) ''dockers'' (d_db s)) = Inr row2"
    by (rule busy_turn)
  have "lock_free ''dockers'' no_locks" by (simp add: lock_free_def no_locks_def)
  from overlap [OF t(1) this t(3) _ t(4,5,2)] show ?thesis using t(2) by (auto simp: jobs_of_def intro: that)
qed

text \<open>
  C6. The git work of a repository is serialised: however the syncs of the loop and the apply callbacks
  are interleaved with each other, with requests and with other programs, no two goroutines are ever
  inside the locked section of the same repository.
\<close>

theorem git_sections_exclusive:
  assumes "reach (conc_start pf) (conc_step pf cf) (sh, p, ts)"
    and "n < length ts" and "at_clone (ts ! n) = Some a" and "k < length ts" and "at_clone (ts ! k) = Some b"
    and "rdb_Name a = rdb_Name b"
  shows "n = k"
proof -
  have ok: "locks_ok (sh_locks sh) (uses ts)" and good: "list_all (thread_good pf) ts"
    using conc_machine.reach_invariant [OF assms(1)] by (simp_all add: conc_ok_def)
  obtain m m' where "use_of (ts ! n) = Has (rdb_Name a) m" "use_of (ts ! k) = Has (rdb_Name a) m'"
    using at_clone_has [of "ts ! n" a pf] at_clone_has [of "ts ! k" b pf] good assms(2-6) by (auto simp: list_all_length)
  then show ?thesis by (rule locks_ok_unique [OF ok assms(2,4)])
qed

theorem git_sections_exclusive_witness:
  "\<exists>sh p ts row. reach (conc_start boot_pf) (conc_step boot_pf boot_cf) (sh, p, ts) \<and> length ts = 2
     \<and> at_clone (ts ! 0) = Some row \<and> rdb_Name row = ''dockers''
     \<and> (\<forall>k b. k < length ts \<longrightarrow> at_clone (ts ! k) = Some b \<longrightarrow> rdb_Name b = ''dockers'' \<longrightarrow> 0 = k)"
proof -
  obtain sh p st cfg row icfg i start m old where row: "rdb_Name row = ''dockers''" and
    r: "reach (conc_start boot_pf) (conc_step boot_pf boot_cf)
       (sh, p, [Sync_pull row icfg i start m old, Apply_compose ''dockers'' ''plex'' st cfg])"
    by (rule busy_run)
  let ?ts = "[Sync_pull row icfg i start m old, Apply_compose ''dockers'' ''plex'' st cfg]"
  have h: "(0 :: nat) < length ?ts" "at_clone (?ts ! 0) = Some row" by simp_all
  have "0 = k" if "k < length ?ts" "at_clone (?ts ! k) = Some b" "rdb_Name b = ''dockers''" for k b
    using git_sections_exclusive [OF r h that(1,2)] row that(3) by metis
  then show ?thesis using r row by (intro exI [of _ sh] exI [of _ p] exI [of _ ?ts] exI [of _ row]) simp
qed

text \<open>
  C12. What the settings API lets in is what the program works on: whenever a goroutine is at the git
  work of a repository, the clone is directly inside the clone directory under the repository's own
  name, the URL has an allowed transport, and branch and remote are no options.
\<close>

theorem git_work_confined:
  assumes "reach (conc_start pf) (conc_step pf cf) (sh, p, ts)" and "n < length ts" and "at_clone (ts ! n) = Some repo"
  shows "\<exists>dest. safeRepoPath (cf_cloneDir cf) (rdb_Name repo) = Inr dest
    \<and> location dest = (IsAbs (cf_cloneDir cf), snd (location (cf_cloneDir cf)) @ [rdb_Name repo])
    \<and> ValidateRepoURL (pf_ut pf) (pf_ip6 pf) (rdb_URL repo) = Inr ()
    \<and> ValidateRef (rdb_Branch repo) = Inr () \<and> ValidateRef (rdb_Remote repo) = Inr ()"
proof -
  have "list_all (thread_good pf) ts" using conc_machine.reach_invariant [OF assms(1)] by (simp add: conc_ok_def)
  then have "merge_ok pf repo" using at_clone_has assms(2,3) by (auto simp: list_all_length)
  then show ?thesis
    using location_Join_name [OF ValidateRepoName_file_name] by (auto simp: merge_ok_def safeRepoPath_valid)
qed

theorem git_work_confined_witness:
  "\<exists>sh p ts repo. reach (conc_start boot_pf) (conc_step boot_pf boot_cf) (sh, p, ts) \<and> at_clone (ts ! 0) = Some repo
     \<and> safeRepoPath ''/var/lib/stackd/repos'' (rdb_Name repo) = Inr ''/var/lib/stackd/repos/dockers''
     \<and> location ''/var/lib/stackd/repos/dockers'' = (True, [''var'', ''lib'', ''stackd'', ''repos'', ''dockers''])"
proof -
  obtain sh p st cfg row icfg i start m old where row: "rdb_Name row = ''dockers''" and
    r: "reach (conc_start boot_pf) (conc_step boot_pf boot_cf)
       (sh, p, [Sync_pull row icfg i start m old, Apply_compose ''dockers'' ''plex'' st cfg])"
    by (rule busy_run)
  let ?ts = "[Sync_pull row icfg i start m old, Apply_compose ''dockers'' ''plex'' st cfg]"
  have "safeRepoPath ''/var/lib/stackd/repos'' ''dockers'' = Inr ''/var/lib/stackd/repos/dockers''"
    "IsAbs ''/var/lib/stackd/repos''" "snd (location ''/var/lib/stackd/repos'') = [''var'', ''lib'', ''stackd'', ''repos'']"
    by code_simp+
  with git_work_confined [OF r, of 0 row] row r show ?thesis
    by (intro exI [of _ sh] exI [of _ p] exI [of _ ?ts] exI [of _ row]) (simp add: boot_cf_def)
qed

text \<open>
  C36. Nothing runs on by itself: however others change the shared state between its pieces, a sync or a
  callback has finitely many of them, and so has the loop until it waits or ends, draining the queue
  apart; and draining ends too when nobody queues meanwhile.
\<close>

theorem goroutines_terminate:
  "wf {(t', t). \<exists>sh sh'. thread_step pf cf t sh = Some (t', sh')}
   \<and> wf {(p', p). \<exists>s s' t. loop_step pf cf p s = Some (p', t, s') \<and> \<not> (draining p \<and> draining p')}
   \<and> wf {((p', s'), (p, s)). \<exists>t. loop_step pf cf p s = Some (p', t, s')}"
proof (intro conjI)
  show "wf {(t', t). \<exists>sh sh'. thread_step pf cf t sh = Some (t', sh')}"
    by (rule wf_subset [OF wf_inv_image [OF wf_shorter, of work_left]]) (auto dest: thread_step_shorter)
  show "wf {(p', p). \<exists>s s' t. loop_step pf cf p s = Some (p', t, s') \<and> \<not> (draining p \<and> draining p')}"
    by (rule wf_subset [OF wf_inv_image [OF wf_shorter, of "loop_left 0"]]) (auto dest: loop_step_shorter_apart)
  show "wf {((p', s'), (p, s)). \<exists>t. loop_step pf cf p s = Some (p', t, s')}"
    by (rule wf_subset [OF wf_inv_image [OF wf_shorter, of "\<lambda>(p, s). loop_left (length (sv_trigger s)) p"]])
      (auto dest: loop_step_shorter)
qed



text \<open>
  C18. One stack is never applied twice at once: whatever requests arrive and however the goroutines are
  interleaved, two callbacks that are running work on different stacks, and while a callback runs, a
  request for its stack starts nothing.
\<close>

theorem one_callback_per_stack:
  assumes "reach (conc_start pf) (conc_step pf cf) (sh, p, ts)"
    and "n < length ts" and "(r, x) \<in> set (job_of (ts ! n))"
  shows "snd (handleApplyStack r x (sh_svc sh)) = sh_svc sh
    \<and> (\<forall>k r' x'. k < length ts \<longrightarrow> (r', x') \<in> set (job_of (ts ! k)) \<longrightarrow> stack_key r' x' = stack_key r x \<longrightarrow> k = n)"
proof -
  have svc: "jobs_ok (sh_svc sh)" and jobs: "jobs_of ts \<subseteq># mset (sv_jobs (sh_svc sh))"
    using conc_machine.reach_invariant [OF assms(1)] by (simp_all add: conc_ok_def service_ok_def)
  then have "stack_key r x \<in> sv_applying (sh_svc sh)"
    using running_job [OF jobs assms(2,3)] by (force simp: jobs_ok_def job_key_def)
  moreover have "k = n" if "k < length ts" "(r', x') \<in> set (job_of (ts ! k))" "stack_key r' x' = stack_key r x" for k r' x'
    using jobs_unique [OF svc jobs that(1,2) assms(2,3)] that(3) by (simp add: job_key_def)
  ultimately show ?thesis by (simp add: handleApplyStack_def)
qed

theorem one_callback_per_stack_witness:
  "\<exists>sh p ts. reach (conc_start boot_pf) (conc_step boot_pf boot_cf) (sh, p, ts) \<and> job_of (ts ! 1) = [(''dockers'', ''plex'')]
     \<and> snd (handleApplyStack ''dockers'' ''plex'' (sh_svc sh)) = sh_svc sh"
proof -
  obtain sh p st cfg row icfg i start m old where row: "rdb_Name row = ''dockers''" and
    r: "reach (conc_start boot_pf) (conc_step boot_pf boot_cf)
       (sh, p, [Sync_pull row icfg i start m old, Apply_compose ''dockers'' ''plex'' st cfg])"
    by (rule busy_run)
  let ?ts = "[Sync_pull row icfg i start m old, Apply_compose ''dockers'' ''plex'' st cfg]"
  from one_callback_per_stack [OF r, of 1 "''dockers''" "''plex''"] r show ?thesis
    by (intro exI [of _ sh] exI [of _ p] exI [of _ ?ts]) simp
qed

text \<open>
  C37. The lock does not cover \<^verbatim>\<open>docker compose\<close>: whenever the loop is about to sync a repository whose
  lock is free, and a request to apply one of its stacks has been accepted, a schedule leads to a
  state in which the callback is about to run \<^verbatim>\<open>docker compose\<close> in the clone while the sync has the
  lock and is about to reset that clone to another commit.
\<close>

theorem compose_not_serialised:
  assumes "reach (conc_start pf) (conc_step pf cf) (\<lparr>sh_svc = s, sh_locks = lt\<rparr>, p, Sync_begin row icfg i # ts)"
    and "lock_free (rdb_Name row) lt"
    and "(rdb_Name row, n) \<in> set (sv_jobs s)" and "(rdb_Name row, n) \<notin># jobs_of ts"
    and "GetStack (d_store s) (rdb_Name row) n = Some st"
    and "fst (GetRepoByName (pf_dt pf) (rdb_Name row) (d_db s)) = Inr current"
  shows "\<exists>sh cfg start m old. reach (conc_start pf) (conc_step pf cf)
    (sh, p, Sync_pull row icfg i start m old # ts @ [Apply_compose (rdb_Name row) n st cfg])"
  by (rule overlap [OF assms refl])

theorem compose_not_serialised_witness:
  "\<exists>sh p st cfg row icfg i start m old. rdb_Name row = ''dockers''
     \<and> reach (conc_start boot_pf) (conc_step boot_pf boot_cf)
       (sh, p, [Sync_pull row icfg i start m old, Apply_compose ''dockers'' ''plex'' st cfg])"
proof -
  obtain s p row icfg i st row2 where t:
    "reach (conc_start boot_pf) (conc_step boot_pf boot_cf) (\<lparr>sh_svc = s, sh_locks = no_locks\<rparr>, p, [Sync_begin row icfg i])"
    "rdb_Name row = ''dockers''" "(''dockers'', ''plex'') \<in> set (sv_jobs s)" "GetStack (d_store s) ''dockers'' ''plex'' = Some st"
    "fst (GetRepoByName (pf_dt boot_pf) ''dockers'' (d_db s)) = Inr row2"
    by (rule busy_turn)
  have "lock_free ''dockers'' no_locks" by (simp add: lock_free_def no_locks_def)
  then have "\<exists>sh cfg start m old. reach (conc_start boot_pf) (conc_step boot_pf boot_cf)
      (sh, p, [Sync_pull row icfg i start m old, Apply_compose ''dockers'' ''plex'' st cfg])"
    using compose_not_serialised [OF t(1), of "''plex''" st row2] t(2-5) by (simp add: jobs_of_def)
  with t(2) show ?thesis by blast
qed

end
