(* ===== verification/Reconnect.thy ===== *)
theory Reconnect
  imports Docker
begin

text \<open>
  Reconnecting to the container engine (\<^verbatim>\<open>refreshContainers\<close> in \<^verbatim>\<open>src/main.go\<close> with the holder of
  \<^verbatim>\<open>src/internal/docker/holder.go\<close>), which runs in the main loop and in callbacks: each caller that
  finds the shared holder empty makes a client of its own and publishes it by compare-and-swap.
\<close>

section \<open>The callers\<close>

text \<open>
  The points of one caller: before \<^verbatim>\<open>holder.Get\<close>, about to create a client, about to swap its client in,
  after losing the race, and with the client it goes on with. A new client is a pointer that was not
  handed out before.
\<close>

datatype caller = R_start | R_empty | R_new client | R_lost | R_done "client option"

record reconnection =
  rc_holder :: ClientHolder
  rc_created :: "client list"
  rc_closed :: "client list"

inductive caller_step :: "reconnection \<times> caller \<Rightarrow> reconnection \<times> caller \<Rightarrow> bool" where
  r_found: "holder_Get (rc_holder h) = Some c \<Longrightarrow> caller_step (h, R_start) (h, R_done (Some c))"
| r_empty: "holder_Get (rc_holder h) = None \<Longrightarrow> caller_step (h, R_start) (h, R_empty)"
| r_failed: "caller_step (h, R_empty) (h, R_done None)"
| r_created: "c \<notin> set (rc_created h) \<Longrightarrow>
     caller_step (h, R_empty) (h\<lparr>rc_created := rc_created h @ [c]\<rparr>, R_new c)"
| r_won: "CompareAndSwap None (Some c) (rc_holder h) = (True, p) \<Longrightarrow>
     caller_step (h, R_new c) (h\<lparr>rc_holder := p\<rparr>, R_done (Some c))"
| r_lost: "CompareAndSwap None (Some c) (rc_holder h) = (False, p) \<Longrightarrow>
     caller_step (h, R_new c) (h\<lparr>rc_closed := rc_closed h @ [c]\<rparr>, R_lost)"
| r_reload: "caller_step (h, R_lost) (h, R_done (holder_Get (rc_holder h)))"

inductive_cases caller_stepE: "caller_step (h, c) (h', c')"

inductive reconnect_step :: "reconnection \<times> caller list \<Rightarrow> reconnection \<times> caller list \<Rightarrow> bool" where
  rs_caller: "n < length cs \<Longrightarrow> caller_step (h, cs ! n) (h', c) \<Longrightarrow> reconnect_step (h, cs) (h', cs[n := c])"
| rs_enter: "reconnect_step (h, cs) (h, cs @ [R_start])"

inductive_cases reconnect_stepE: "reconnect_step (h, cs) y"

text \<open>The holder starts with one client or empty; a nil holder is never refreshed.\<close>

definition reconnect_start :: "reconnection \<times> caller list \<Rightarrow> bool" where
  "reconnect_start x \<longleftrightarrow> snd x = [] \<and> rc_closed (fst x) = []
     \<and> (\<exists>c. rc_holder (fst x) = Some c \<and> rc_created (fst x) = (case c of None \<Rightarrow> [] | Some c' \<Rightarrow> [c']))"

text \<open>Where the clients are: each one created is the published one, or closed, or still with its maker, and only one of these.\<close>

definition current :: "reconnection \<Rightarrow> client list" where
  "current h = (case holder_Get (rc_holder h) of None \<Rightarrow> [] | Some c \<Rightarrow> [c])"

fun client_held :: "caller \<Rightarrow> client list" where
  "client_held (R_new c) = [c]"
| "client_held c = []"

fun settled :: "client option \<Rightarrow> caller \<Rightarrow> bool" where
  "settled cur (R_done (Some c)) = (cur = Some c)"
| "settled cur R_lost = (cur \<noteq> None)"
| "settled cur c = True"

definition reconnect_ok :: "reconnection \<times> caller list \<Rightarrow> bool" where
  "reconnect_ok x \<longleftrightarrow> rc_holder (fst x) \<noteq> None \<and> distinct (rc_created (fst x))
     \<and> mset (rc_created (fst x)) = mset (current (fst x)) + mset (rc_closed (fst x)) + mset (concat (map client_held (snd x)))
     \<and> list_all (settled (holder_Get (rc_holder (fst x)))) (snd x)"

lemma settled_empty: "settled None c \<Longrightarrow> settled cur c"
  by (cases "(None :: client option, c)" rule: settled.cases) auto

lemma reconnect_step_ok:
  assumes "reconnect_ok x" "reconnect_step x y" shows "reconnect_ok y"
proof -
  obtain h cs where x: "x = (h, cs)" by fastforce
  show ?thesis using assms(2) unfolding x
  proof (elim reconnect_stepE)
    assume "y = (h, cs @ [R_start])"
    then show ?thesis using assms(1) by (simp add: x reconnect_ok_def)
  next
    fix n h' c assume n: "n < length cs" "caller_step (h, cs ! n) (h', c)" and y: "y = (h', cs[n := c])"
    note pu = concat_update [OF n(1), of client_held c]
    have settled: "settled (holder_Get (rc_holder h)) (cs ! k)" if "k < length cs" for k
      using assms(1) that by (simp add: x reconnect_ok_def list_all_length)
    obtain p where p: "rc_holder h = Some p" using assms(1) by (auto simp: x reconnect_ok_def)
    have inv: "distinct (rc_created h)"
      "mset (rc_created h) = mset (current h) + mset (rc_closed h) + mset (concat (map client_held cs))"
      using assms(1) by (simp_all add: x reconnect_ok_def)
    have all: "list_all (settled (holder_Get (rc_holder h'))) (cs[n := c])"
      if "settled (holder_Get (rc_holder h')) c" "holder_Get (rc_holder h) = None \<or> holder_Get (rc_holder h') = holder_Get (rc_holder h)"
      unfolding list_all_length
    proof (intro allI impI)
      fix k assume "k < length (cs[n := c])"
      then show "settled (holder_Get (rc_holder h')) (cs[n := c] ! k)"
        using that settled [of k] settled_empty [of "cs ! k"] by (cases "k = n") auto
    qed
    show ?thesis using n(2)
    proof (cases rule: caller_step.cases)
      case (r_found c')
      then show ?thesis using all inv pu p by (simp add: y reconnect_ok_def)
    next
      case r_empty
      then show ?thesis using all inv pu p by (simp add: y reconnect_ok_def)
    next
      case r_failed
      then show ?thesis using all inv pu p by (simp add: y reconnect_ok_def)
    next
      case (r_created c')
      then show ?thesis using all inv pu p by (simp add: y reconnect_ok_def current_def)
    next
      case (r_won c' q)
      then show ?thesis using all inv pu p
        by (auto simp: y reconnect_ok_def current_def CompareAndSwap_def holder_Get_def split: if_splits)
    next
      case (r_lost c' q)
      then show ?thesis using all inv pu p
        by (auto simp: y reconnect_ok_def current_def CompareAndSwap_def holder_Get_def split: if_splits)
    next
      case r_reload
      then show ?thesis using all inv pu p settled [OF n(1)] by (auto simp: y reconnect_ok_def split: option.splits)
    qed
  qed
qed

interpretation reconnections: transition_system reconnect_start reconnect_step reconnect_ok
proof unfold_locales
  fix x assume "reconnect_start x"
  then obtain c where "snd x = []" "rc_closed (fst x) = []" "rc_holder (fst x) = Some c"
    "rc_created (fst x) = (case c of None \<Rightarrow> [] | Some c' \<Rightarrow> [c'])" by (auto simp: reconnect_start_def)
  then show "reconnect_ok x" by (cases c) (simp_all add: reconnect_ok_def current_def holder_Get_def)
qed (rule reconnect_step_ok)

section \<open>Property\<close>

text \<open>
  C21. Concurrent reconnections leak no client and agree: however many callers find the holder empty at
  once, whenever none is on its way each client that was created is either the one in the holder or
  closed, never both and none twice, and all callers that got a client got the one in the holder.
\<close>

theorem no_client_leak:
  assumes "reach reconnect_start reconnect_step (h, cs)" and "\<forall>c \<in> set cs. c = R_start \<or> (\<exists>r. c = R_done r)"
  shows "distinct (rc_created h) \<and> mset (rc_created h) = mset (current h) + mset (rc_closed h)
    \<and> (\<forall>c. R_done (Some c) \<in> set cs \<longrightarrow> holder_Get (rc_holder h) = Some c)"
proof -
  have inv: "reconnect_ok (h, cs)" by (rule reconnections.reach_invariant [OF assms(1)])
  have "concat (map client_held cs) = []" using assms(2) by fastforce
  moreover have "settled (holder_Get (rc_holder h)) c" if "c \<in> set cs" for c
    using inv that by (simp add: reconnect_ok_def list_all_iff)
  ultimately show ?thesis using inv by (fastforce simp: reconnect_ok_def)
qed

text \<open>Two callers meet: both find the holder empty and create a client, the first one wins, the second closes its own.\<close>

theorem no_client_leak_witness:
  "reach reconnect_start reconnect_step
     (\<lparr>rc_holder = Some (Some 1), rc_created = [1, 2], rc_closed = [2]\<rparr>, [R_done (Some 1), R_done (Some 1)])
   \<and> distinct [1 :: nat, 2] \<and> current \<lparr>rc_holder = Some (Some 1), rc_created = [1, 2], rc_closed = [2]\<rparr> = [1]"
proof -
  let ?h = "\<lparr>rc_holder = Some None, rc_created = [], rc_closed = []\<rparr>" and ?R = "reach reconnect_start reconnect_step"
  have step: "?R (h', cs[n := c])" if "?R (h, cs)" "n < length cs" "caller_step (h, cs ! n) (h', c)" for h h' cs n c
    using that(1) by (rule reach_step) (rule rs_caller [OF that(2,3)])
  have "?R (?h, [])" by (intro reach_init) (simp add: reconnect_start_def)
  then have "?R (?h, [] @ [R_start])" by (rule reach_step) (rule rs_enter)
  then have "?R (?h, ([] @ [R_start]) @ [R_start])" by (rule reach_step) (rule rs_enter)
  then have 0: "?R (?h, [R_start, R_start])" by simp
  have 1: "?R (?h, [R_empty, R_start])" using step [OF 0, of 0 ?h R_empty] by (simp add: r_empty holder_Get_def)
  have 2: "?R (?h, [R_empty, R_empty])" using step [OF 1, of 1 ?h R_empty] by (simp add: r_empty holder_Get_def)
  let ?h1 = "?h\<lparr>rc_created := [1]\<rparr>" and ?h2 = "?h\<lparr>rc_created := [1, 2]\<rparr>"
  have 3: "?R (?h1, [R_new 1, R_empty])" using step [OF 2, of 0 ?h1 "R_new 1"] r_created [of 1 ?h] by simp
  have 4: "?R (?h2, [R_new 1, R_new 2])" using step [OF 3, of 1 ?h2 "R_new 2"] r_created [of 2 ?h1] by simp
  let ?h3 = "?h2\<lparr>rc_holder := Some (Some 1)\<rparr>" and ?h4 = "?h2\<lparr>rc_holder := Some (Some 1), rc_closed := [2]\<rparr>"
  have 5: "?R (?h3, [R_done (Some 1), R_new 2])"
    using step [OF 4, of 0 ?h3 "R_done (Some 1)"] r_won [of 1 ?h2 "Some (Some 1)"] by (simp add: CompareAndSwap_def)
  have 6: "?R (?h4, [R_done (Some 1), R_lost])"
    using step [OF 5, of 1 ?h4 R_lost] r_lost [of 2 ?h3 "Some (Some 1)"] by (simp add: CompareAndSwap_def)
  have 7: "?R (?h4, [R_done (Some 1), R_done (Some 1)])"
    using step [OF 6, of 1 ?h4 "R_done (Some 1)"] r_reload [of ?h4] by (simp add: holder_Get_def)
  from no_client_leak [OF 7] 7 show ?thesis by (simp add: current_def holder_Get_def)
qed

end
