(* ===== verification/Spec2Isabelle.thy ===== *)
theory Spec2Isabelle
  imports Prelude GoStrings GoPath GoUrl Host Crypto Git Database State_Store Metrics Backoff Docker Deploy Sync
    Server_Core Exec_Session Settings Serve Startup Daemon Locks Goroutines Concurrency Realisation
    Progress Reconnect
begin

text \<open>
  A verification development for stackd, the GitOps daemon of this repository: it clones git
  repositories, applies the docker-compose stacks it finds in them, repeats this on a schedule, on
  request and at start-up, and serves a dashboard with a JSON API. All of the Go code that has
  logic of its own is modelled; the theories follow its packages.

  \<^bold>\<open>How the parts interact.\<close> \<^verbatim>\<open>main\<close> reads the environment, opens the database and derives the key
  (\<open>Startup\<close>), syncs every enabled repository once, starts the HTTP server and enters a loop. A turn
  of the loop lists the repositories and syncs those that are due and not in backoff; it then waits
  for a tick, a trigger from the API, or the end. A sync (\<open>Sync\<close>) runs git (\<open>Git\<close>) with decrypted
  credentials (\<open>Crypto\<close>), and if the commit changed applies the stacks (\<open>Deploy\<close>) through
  \<^verbatim>\<open>docker compose\<close>. Results go to the state store and the activity bus (\<open>State_Store\<close>), the
  backoff records (\<open>Backoff\<close>) and the metrics (\<open>Metrics\<close>), which the handlers of the server read
  (\<open>Server_Core\<close>, \<open>Settings\<close>, \<open>Serve\<close>).

  \<^bold>\<open>Theories and source files.\<close>
  \<^item> \<open>Prelude\<close>: Go's integers, durations and maps, and the interfaces of the development: \<^verbatim>\<open>keyed_store\<close>,
    \<^verbatim>\<open>bounded_channel\<close>, \<^verbatim>\<open>sanitizer\<close>, \<^verbatim>\<open>codec\<close>, \<^verbatim>\<open>transition_system\<close>, \<^verbatim>\<open>simulation\<close>. Each is interpreted on the model's own
    definitions in the theory of the component that provides it.
  \<^item> \<open>GoStrings\<close>, \<open>GoPath\<close>, \<open>GoUrl\<close>: what the program uses of packages \<^verbatim>\<open>strings\<close>, \<^verbatim>\<open>strconv\<close>,
    \<^verbatim>\<open>path/filepath\<close> and \<^verbatim>\<open>net/url\<close>.
  \<^item> \<open>Host\<close>: processes, files and the clock as the record \<^verbatim>\<open>os\<close>, and \<^verbatim>\<open>src/internal/execpg\<close>.
  \<^item> \<open>Crypto\<close>: \<^verbatim>\<open>src/internal/crypto\<close>. \<open>Git\<close>: \<^verbatim>\<open>src/internal/git\<close>. \<open>Database\<close>: \<^verbatim>\<open>src/internal/db\<close> and
    its migrations. \<open>State_Store\<close>: \<^verbatim>\<open>src/internal/state\<close>. \<open>Metrics\<close>: \<^verbatim>\<open>src/internal/metrics\<close>. \<open>Docker\<close>:
    \<^verbatim>\<open>src/internal/docker\<close>.
  \<^item> \<open>Backoff\<close>, \<open>Deploy\<close>, \<open>Sync\<close>, \<open>Startup\<close>: \<^verbatim>\<open>src/main.go\<close> (with \<^verbatim>\<open>src/internal/compose\<close> in \<open>Deploy\<close>),
    from the scheduler's records to the loop.
  \<^item> \<open>Server_Core\<close>, \<open>Exec_Session\<close>, \<open>Settings\<close>, \<open>Serve\<close>: \<^verbatim>\<open>src/internal/server\<close>, the handlers, the loops of a
    terminal session, the settings API, and the routing table with the middlewares.
  \<^item> \<open>Daemon\<close>: the loop of \<^verbatim>\<open>main\<close>, the requests and the goroutines as one transition system.
    \<open>Locks\<close>, \<open>Goroutines\<close>, \<open>Concurrency\<close>: the per-repository locks, syncs and apply callbacks cut into the
    pieces between which others run, and the machine in which they interleave with the pieces of the
    main loop. \<open>Realisation\<close> relates it to \<open>Daemon\<close>; \<open>Progress\<close> shows that the pieces run out and that the
    program can always come to rest. \<open>Reconnect\<close>: the race of reconnections to the container engine.

  \<^bold>\<open>State and operations.\<close> The record \<^verbatim>\<open>machine\<close> holds the world and the commands run so far; \<^verbatim>\<open>daemon\<close>
  extends it by the database, the scheduler, the store, the bus, the metrics and the docker client
  holder, \<^verbatim>\<open>service\<close> by the fields of \<^verbatim>\<open>Server\<close>. A Go function is a function from its arguments and this
  state to its result and the new state, with one branch for every error return; an operation that
  only needs a part of the state is stated for the extensible record, so the next layer inherits it.
  A goroutine that a handler starts is an entry of a job list which a later step finishes.

  \<^bold>\<open>Two grains of time.\<close> In \<open>Daemon\<close> one step is a whole turn, request or job; \<open>Concurrency\<close> interleaves
  the pieces of the loop, of the syncs it calls and of the accepted apply jobs. The locale
  \<^verbatim>\<open>simulation\<close>, interpreted as \<^verbatim>\<open>embedding\<close>, carries the first into the second: every coarse step is a
  run of pieces that nobody interrupts. In both, requests, streams and other programs act at any
  moment until \<^verbatim>\<open>main\<close> returns. A piece (one store operation, one compose run, the git work of one
  sync) is atomic: it is protected by a mutex of its own or touches one clone under the lock of its
  repository. A request runs as a whole: two requests of the settings API that interleave inside
  their database calls are not modelled.

  \<^bold>\<open>What lies outside.\<close> The operating system, the container engine, the AEAD cipher, the Unicode
  tables, the time format and map iteration orders are the fields of the record \<^verbatim>\<open>platform\<close>; the
  random sources, decoded request bodies and library outcomes are arguments. Where a property needs
  a law of one of them, the law is a named hypothesis (\<^verbatim>\<open>aead_laws\<close>, \<^verbatim>\<open>permuting\<close>, \<^verbatim>\<open>clock_forward\<close>,
  \<^verbatim>\<open>files_read_back\<close>), and a
  concrete instance (\<^verbatim>\<open>demo_os\<close>, \<^verbatim>\<open>demo_api\<close>, \<^verbatim>\<open>demo_aead\<close>) shows that it can hold.

  \<^bold>\<open>What the lemmas show.\<close> Each theory closes with its properties: invariants of the state machines
  (\<^verbatim>\<open>db_machine\<close>, \<^verbatim>\<open>store_machine\<close>, \<^verbatim>\<open>bus_machine\<close>, \<^verbatim>\<open>admissions\<close>, \<^verbatim>\<open>settings_api\<close>, \<^verbatim>\<open>sessions\<close>,
  \<^verbatim>\<open>daemon_machine\<close>, \<^verbatim>\<open>conc_machine\<close>, \<^verbatim>\<open>reconnections\<close>), round trips of the
  encodings, the outcome of every operation on every branch, refinement of the backoff table by the
  history of one repository, and the safety of what leaves the program (command lines, logs,
  metrics, API answers). The \<^verbatim>\<open>frame_simps\<close> of each theory say which parts of the state an operation
  leaves alone; the proofs of the layers above rest on them. In \<open>Daemon\<close> the relation \<^verbatim>\<open>background\<close> sums
  up everything that is not a write of the settings API, and every operation of the loop and of the
  goroutines is shown to be background work.

  \<^bold>\<open>Bounds.\<close> Durations and \<^verbatim>\<open>int\<close> values are 64-bit words with Go's wrap-around; instants are unbounded
  integers (nanoseconds). No fuel is used: every loop is a recursion with a termination proof.

  \<^bold>\<open>Not modelled.\<close> Log output; time-outs as such (they appear as errors of the calls they bound); JSON
  and HTTP encoding, \<^verbatim>\<open>ListenAndServe\<close> and its shutdown, MIME registration;
  the embedded front end; \<^verbatim>\<open>injectPAT\<close>, which only a test calls; the down migrations, which the
  program never runs.
\<close>

end
